theory Spec2Isabelle
  imports Main "HOL-Library.Word"
begin

unbundle bit_operations_syntax

section \<open>osfs: an in-memory, bitmap-backed filesystem (lab4)\<close>

text \<open>
  The development embeds the multi-level variant of the filesystem
  (\<^verbatim>\<open>lab4_bonus/inode.c\<close>, \<^verbatim>\<open>lab4_bonus/dir.c\<close>, \<^verbatim>\<open>lab4_bonus/file.c\<close>,
  \<^verbatim>\<open>lab4_bonus/osfs.h\<close>) together with the mount routine
  (\<^verbatim>\<open>Lab4_Template_Update/super.c\<close>).  The backing region is one allocation
  carved into the superblock header, two bitmaps, the inode table and the
  data-block area; the model keeps these as fields of one state record that
  every operation takes and returns.
\<close>

subsection \<open>Constants\<close>

type_synonym u8 = "8 word"
type_synonym u16 = "16 word"
type_synonym u32 = "32 word"

definition OSFS_MAGIC :: u32 where
  "OSFS_MAGIC = 0x051AB520"

text \<open>
  Modelled from the spec: the macro \<^verbatim>\<open>BLOCK_SIZE\<close> is used by every source
  file but defined by none of them (\<^verbatim>\<open>osfs.h\<close> carries it commented out as
  \<^verbatim>\<open>//#define BLOCK_SIZE 4096\<close>); the spec's scenario mounts with
  \<^verbatim>\<open>block_size=4096\<close>.  The general theorems below use only that it is
  positive and a multiple of four.
\<close>

definition BLOCK_SIZE :: nat where
  "BLOCK_SIZE = 4096"

definition INODE_COUNT :: nat where
  "INODE_COUNT = 20"

definition DATA_BLOCK_COUNT :: nat where
  "DATA_BLOCK_COUNT = 20"

definition MAX_FILENAME_LEN :: nat where
  "MAX_FILENAME_LEN = 255"

text \<open>
  \<^verbatim>\<open>sizeof(struct osfs_dir_entry)\<close>: 255 bytes of \<^verbatim>\<open>filename\<close>, one byte of
  padding, and the 4-byte aligned \<^verbatim>\<open>inode_no\<close> at offset 256.
\<close>

definition DIR_ENTRY_SIZE :: nat where
  "DIR_ENTRY_SIZE = 260"

definition DIR_ENTRY_INO_OFFSET :: nat where
  "DIR_ENTRY_INO_OFFSET = 256"

definition MAX_DIR_ENTRIES :: nat where
  "MAX_DIR_ENTRIES = BLOCK_SIZE div DIR_ENTRY_SIZE"

definition OSFS_N_DIRECT :: nat where
  "OSFS_N_DIRECT = 12"

definition OSFS_N_INDIRECT :: nat where
  "OSFS_N_INDIRECT = 1"

definition OSFS_N_DINDIRECT :: nat where
  "OSFS_N_DINDIRECT = 1"

definition OSFS_N_BLOCKS :: nat where
  "OSFS_N_BLOCKS = OSFS_N_DIRECT + OSFS_N_INDIRECT + OSFS_N_DINDIRECT"

definition OSFS_ADDR_PER_BLOCK :: nat where
  "OSFS_ADDR_PER_BLOCK = BLOCK_SIZE div 4"

text \<open>\<^verbatim>\<open>BITS_PER_LONG\<close> of a 64-bit kernel.\<close>

definition BITS_PER_LONG :: nat where
  "BITS_PER_LONG = 64"

definition BITMAP_SIZE :: "nat \<Rightarrow> nat" where
  "BITMAP_SIZE bits = (bits + BITS_PER_LONG - 1) div BITS_PER_LONG"

definition INODE_BITMAP_SIZE :: nat where
  "INODE_BITMAP_SIZE = BITMAP_SIZE INODE_COUNT"

definition BLOCK_BITMAP_SIZE :: nat where
  "BLOCK_BITMAP_SIZE = BITMAP_SIZE DATA_BLOCK_COUNT"

text \<open>The number of bits the words of each bitmap physically hold.\<close>

definition INODE_BITMAP_BITS :: nat where
  "INODE_BITMAP_BITS = INODE_BITMAP_SIZE * BITS_PER_LONG"

definition BLOCK_BITMAP_BITS :: nat where
  "BLOCK_BITMAP_BITS = BLOCK_BITMAP_SIZE * BITS_PER_LONG"

definition ROOT_INODE :: nat where
  "ROOT_INODE = 1"

definition S_IFMT :: u16 where
  "S_IFMT = 0xF000"

definition S_IFDIR :: u16 where
  "S_IFDIR = 0x4000"

definition S_IFREG :: u16 where
  "S_IFREG = 0x8000"

definition S_IFLNK :: u16 where
  "S_IFLNK = 0xA000"

definition S_ISDIR :: "u16 \<Rightarrow> bool" where
  "S_ISDIR m = (m AND S_IFMT = S_IFDIR)"

definition S_ISREG :: "u16 \<Rightarrow> bool" where
  "S_ISREG m = (m AND S_IFMT = S_IFREG)"

definition S_ISLNK :: "u16 \<Rightarrow> bool" where
  "S_ISLNK m = (m AND S_IFMT = S_IFLNK)"

subsection \<open>Errors\<close>

text \<open>
  The errno values the sources return, and \<open>OutOfBounds\<close>, which is no errno:
  it marks an access outside the words of a bitmap or outside the data-block
  area, where the C program has no defined behaviour.
\<close>

datatype error =
    ENOENT | EIO | ENOMEM | EFAULT | EEXIST | EINVAL | EFBIG | ENOSPC
  | ENAMETOOLONG | OutOfBounds

subsection \<open>Data model\<close>

type_synonym timespec64 = "int \<times> int"

text \<open>
  \<^verbatim>\<open>struct osfs_inode\<close>.  The array \<^verbatim>\<open>i_block[OSFS_N_BLOCKS]\<close> is a function
  on its indices: 0 to 11 the direct pointers, 12 the indirect pointer, 13 the
  double-indirect pointer.
\<close>

record osfs_inode =
  i_ino :: u32
  i_size :: u32
  i_blocks :: u32
  i_mode :: u16
  i_links_count :: u16
  i_uid :: u32
  i_gid :: u32
  i_atime :: timespec64
  i_mtime :: timespec64
  i_ctime :: timespec64
  i_block :: "nat \<Rightarrow> u32"

type_synonym block = "nat \<Rightarrow> u8"

text \<open>
  \<^verbatim>\<open>struct osfs_sb_info\<close>.  The four pointers into the backing region are
  the regions themselves: a bitmap maps a bit index to its bit, the inode
  table maps a slot index to its record, and the data area maps a block
  number and a byte offset inside the block to the byte stored there.
\<close>

record osfs_sb_info =
  magic :: u32
  block_size :: u32
  inode_count :: u32
  block_count :: u32
  nr_free_inodes :: u32
  nr_free_blocks :: u32
  inode_bitmap :: "nat \<Rightarrow> bool"
  block_bitmap :: "nat \<Rightarrow> bool"
  inode_table :: "nat \<Rightarrow> osfs_inode"
  data_blocks :: "nat \<Rightarrow> block"

text \<open>
  What the kernel contributes to a call: the clock, the identity of the
  caller, and whether its own allocations and user-space copies succeed.
\<close>

record kernel_env =
  cur_time :: timespec64
  fsuid :: u32
  fsgid :: u32
  vmalloc_ok :: bool
  new_inode_ok :: bool
  d_make_root_ok :: bool
  user_copy_ok :: bool

type_synonym 'a ret = "(error + 'a) \<times> osfs_sb_info"

definition zero_inode :: osfs_inode where
  "zero_inode = \<lparr>i_ino = 0, i_size = 0, i_blocks = 0, i_mode = 0, i_links_count = 0,
     i_uid = 0, i_gid = 0, i_atime = (0, 0), i_mtime = (0, 0), i_ctime = (0, 0),
     i_block = (\<lambda>_. 0)\<rparr>"

subsection \<open>Bytes of a block\<close>

text \<open>\<^verbatim>\<open>memset(block, 0, BLOCK_SIZE)\<close>.\<close>

definition zero_block :: block where
  "zero_block = (\<lambda>_. 0)"

text \<open>Copying a byte sequence into a block at an offset, and out of it.\<close>

definition blk_write :: "block \<Rightarrow> nat \<Rightarrow> u8 list \<Rightarrow> block" where
  "blk_write blk off bytes =
     (\<lambda>a. if off \<le> a \<and> a < off + length bytes then bytes ! (a - off) else blk a)"

definition blk_read :: "block \<Rightarrow> nat \<Rightarrow> nat \<Rightarrow> u8 list" where
  "blk_read blk off n = map blk [off ..< off + n]"

text \<open>
  A block read as an array of \<^verbatim>\<open>uint32_t\<close>: entry \<open>i\<close> is the four bytes from
  offset \<open>4 * i\<close>, least significant first.
\<close>

definition get_u32 :: "block \<Rightarrow> nat \<Rightarrow> u32" where
  "get_u32 blk i =
     ucast (blk (4 * i)) OR push_bit 8 (ucast (blk (4 * i + 1)))
       OR push_bit 16 (ucast (blk (4 * i + 2))) OR push_bit 24 (ucast (blk (4 * i + 3)))"

definition put_u32 :: "block \<Rightarrow> nat \<Rightarrow> u32 \<Rightarrow> block" where
  "put_u32 blk i v =
     blk(4 * i := ucast v, 4 * i + 1 := ucast (drop_bit 8 v),
         4 * i + 2 := ucast (drop_bit 16 v), 4 * i + 3 := ucast (drop_bit 24 v))"

subsection \<open>Bitmap allocator (inode.c)\<close>

text \<open>
  \<^verbatim>\<open>osfs_get_osfs_inode\<close>: the slot of an inode number, or \<^verbatim>\<open>NULL\<close> for 0 and
  for numbers at or beyond \<^verbatim>\<open>inode_count\<close>.
\<close>

definition osfs_get_osfs_inode :: "osfs_sb_info \<Rightarrow> nat \<Rightarrow> nat option" where
  "osfs_get_osfs_inode sb ino =
     (if ino = 0 \<or> ino \<ge> unat (inode_count sb) then None else Some ino)"

text \<open>
  \<^verbatim>\<open>osfs_get_free_inode\<close>: the loop \<^verbatim>\<open>for (ino = 1; ino < inode_count; ino++)\<close>,
  entered at \<open>ino\<close>.
\<close>

function get_free_inode_from :: "osfs_sb_info \<Rightarrow> nat \<Rightarrow> nat ret" where
  "get_free_inode_from sb ino =
     (if ino < unat (inode_count sb) then
        (if INODE_BITMAP_BITS \<le> ino then (Inl OutOfBounds, sb)
         else if \<not> inode_bitmap sb ino then
           (Inr ino, sb\<lparr>inode_bitmap := (inode_bitmap sb)(ino := True),
                        nr_free_inodes := nr_free_inodes sb - 1\<rparr>)
         else get_free_inode_from sb (ino + 1))
      else (Inl ENOSPC, sb))"
  by pat_completeness auto
termination
  by (relation "measure (\<lambda>(sb, ino). unat (inode_count sb) - ino)") auto

declare get_free_inode_from.simps [simp del]

definition osfs_get_free_inode :: "osfs_sb_info \<Rightarrow> nat ret" where
  "osfs_get_free_inode sb = get_free_inode_from sb 1"

text \<open>
  \<^verbatim>\<open>osfs_alloc_data_block\<close>: the loop \<^verbatim>\<open>for (i = 0; i < block_count; i++)\<close>,
  entered at \<open>i\<close>.  The number found is returned; the caller stores it in the
  slot the C code passes by address.
\<close>

function alloc_data_block_from :: "osfs_sb_info \<Rightarrow> nat \<Rightarrow> u32 ret" where
  "alloc_data_block_from sb i =
     (if i < unat (block_count sb) then
        (if BLOCK_BITMAP_BITS \<le> i then (Inl OutOfBounds, sb)
         else if \<not> block_bitmap sb i then
           (Inr (of_nat i), sb\<lparr>block_bitmap := (block_bitmap sb)(i := True),
                                nr_free_blocks := nr_free_blocks sb - 1\<rparr>)
         else alloc_data_block_from sb (i + 1))
      else (Inl ENOSPC, sb))"
  by pat_completeness auto
termination
  by (relation "measure (\<lambda>(sb, i). unat (block_count sb) - i)") auto

declare alloc_data_block_from.simps [simp del]

definition osfs_alloc_data_block :: "osfs_sb_info \<Rightarrow> u32 ret" where
  "osfs_alloc_data_block sb = alloc_data_block_from sb 0"


text \<open>
  The number of zero bits among the first \<open>n\<close> bits of a bitmap: the free
  inodes or free blocks the bitmap records.
\<close>

definition zero_bits :: "(nat \<Rightarrow> bool) \<Rightarrow> nat \<Rightarrow> nat" where
  "zero_bits bm n = length (filter (\<lambda>i. \<not> bm i) [0 ..< n])"

subsection \<open>Mount (super.c)\<close>

text \<open>
  \<^verbatim>\<open>osfs_fill_super\<close>.  The region is zeroed, the header is filled in, the
  root directory inode is written into slot \<^verbatim>\<open>ROOT_INODE\<close> and its bit is
  set.  The result is the state and the inode number of the root.
\<close>

definition osfs_fill_super :: "kernel_env \<Rightarrow> error + (osfs_sb_info \<times> nat)" where
  "osfs_fill_super env =
     (if \<not> vmalloc_ok env then Inl ENOMEM
      else
        let sb_info = \<lparr>magic = OSFS_MAGIC, block_size = of_nat BLOCK_SIZE,
              inode_count = of_nat INODE_COUNT, block_count = of_nat DATA_BLOCK_COUNT,
              nr_free_inodes = of_nat INODE_COUNT - 1,
              nr_free_blocks = of_nat DATA_BLOCK_COUNT,
              inode_bitmap = (\<lambda>_. False), block_bitmap = (\<lambda>_. False),
              inode_table = (\<lambda>_. zero_inode), data_blocks = (\<lambda>_. zero_block)\<rparr>
        in if \<not> new_inode_ok env then Inl ENOMEM
           else
             (case osfs_get_osfs_inode sb_info ROOT_INODE of
                None \<Rightarrow> Inl EIO
              | Some slot \<Rightarrow>
                  let root = zero_inode\<lparr>i_ino := of_nat ROOT_INODE,
                        i_mode := S_IFDIR OR 0x1ED, i_links_count := 2,
                        i_atime := cur_time env, i_mtime := cur_time env,
                        i_ctime := cur_time env\<rparr>;
                      sb1 = sb_info\<lparr>inode_table := (inode_table sb_info)(slot := root)\<rparr>;
                      sb2 = sb1\<lparr>inode_bitmap := (inode_bitmap sb1)(ROOT_INODE := True)\<rparr>
                  in if \<not> d_make_root_ok env then Inl ENOMEM
                     else Inr (sb2, ROOT_INODE)))"

subsection \<open>Block indexer (inode.c)\<close>

text \<open>
  Assignments through \<^verbatim>\<open>osfs_inode\<close>, the table slot a VFS inode's
  \<^verbatim>\<open>i_private\<close> points to (the slot index stands for the pointer), and
  through a pointer into the data area.
\<close>

definition set_i_block :: "osfs_sb_info \<Rightarrow> nat \<Rightarrow> nat \<Rightarrow> u32 \<Rightarrow> osfs_sb_info" where
  "set_i_block sb ino k v =
     sb\<lparr>inode_table := (inode_table sb)
          (ino := (inode_table sb ino)\<lparr>i_block := (i_block (inode_table sb ino))(k := v)\<rparr>)\<rparr>"

definition inc_i_blocks :: "osfs_sb_info \<Rightarrow> nat \<Rightarrow> osfs_sb_info" where
  "inc_i_blocks sb ino =
     sb\<lparr>inode_table := (inode_table sb)
          (ino := (inode_table sb ino)\<lparr>i_blocks := i_blocks (inode_table sb ino) + 1\<rparr>)\<rparr>"

definition get_entry :: "osfs_sb_info \<Rightarrow> u32 \<Rightarrow> nat \<Rightarrow> u32" where
  "get_entry sb p i = get_u32 (data_blocks sb (unat p)) i"

definition set_entry :: "osfs_sb_info \<Rightarrow> u32 \<Rightarrow> nat \<Rightarrow> u32 \<Rightarrow> osfs_sb_info" where
  "set_entry sb p i v =
     sb\<lparr>data_blocks := (data_blocks sb)(unat p := put_u32 (data_blocks sb (unat p)) i v)\<rparr>"

definition memset_block :: "osfs_sb_info \<Rightarrow> u32 \<Rightarrow> osfs_sb_info" where
  "memset_block sb p = sb\<lparr>data_blocks := (data_blocks sb)(unat p := zero_block)\<rparr>"

text \<open>
  \<^verbatim>\<open>osfs_get_block\<close>, part 2: the single-indirect range; \<open>block\<close> is already
  relative to it.
\<close>

definition get_block_indirect :: "osfs_sb_info \<Rightarrow> nat \<Rightarrow> nat \<Rightarrow> bool \<Rightarrow> u32 ret" where
  "get_block_indirect sb ino block create =
     (case
        (if i_block (inode_table sb ino) OSFS_N_DIRECT = 0 then
           (if \<not> create then (Inl ENOENT, sb)
            else
              (case osfs_alloc_data_block sb of
                 (Inl e, sb1) \<Rightarrow> (Inl e, sb1)
               | (Inr p, sb1) \<Rightarrow>
                   let sb2 = set_i_block sb1 ino OSFS_N_DIRECT p;
                       ib = i_block (inode_table sb2 ino) OSFS_N_DIRECT
                   in if DATA_BLOCK_COUNT \<le> unat ib then (Inl OutOfBounds, sb2)
                      else (Inr (), inc_i_blocks (memset_block sb2 ib) ino)))
         else (Inr (), sb))
      of
        (Inl e, sb1) \<Rightarrow> (Inl e, sb1)
      | (Inr _, sb1) \<Rightarrow>
          let ib = i_block (inode_table sb1 ino) OSFS_N_DIRECT
          in if DATA_BLOCK_COUNT \<le> unat ib then (Inl OutOfBounds, sb1)
             else if get_entry sb1 ib block = 0 \<and> create then
               (case osfs_alloc_data_block sb1 of
                  (Inl e, sb2) \<Rightarrow> (Inl e, sb2)
                | (Inr p, sb2) \<Rightarrow>
                    let sb3 = inc_i_blocks (set_entry sb2 ib block p) ino
                    in (Inr (get_entry sb3 ib block), sb3))
             else (Inr (get_entry sb1 ib block), sb1))"

text \<open>
  \<^verbatim>\<open>osfs_get_block\<close>, part 3: the double-indirect range; \<open>block\<close> is already
  relative to it.
\<close>

definition get_block_dindirect :: "osfs_sb_info \<Rightarrow> nat \<Rightarrow> nat \<Rightarrow> bool \<Rightarrow> u32 ret" where
  "get_block_dindirect sb ino block create =
     (case
        (if i_block (inode_table sb ino) (OSFS_N_DIRECT + 1) = 0 then
           (if \<not> create then (Inl ENOENT, sb)
            else
              (case osfs_alloc_data_block sb of
                 (Inl e, sb1) \<Rightarrow> (Inl e, sb1)
               | (Inr p, sb1) \<Rightarrow>
                   let sb2 = set_i_block sb1 ino (OSFS_N_DIRECT + 1) p;
                       db = i_block (inode_table sb2 ino) (OSFS_N_DIRECT + 1)
                   in if DATA_BLOCK_COUNT \<le> unat db then (Inl OutOfBounds, sb2)
                      else (Inr (), inc_i_blocks (memset_block sb2 db) ino)))
         else (Inr (), sb))
      of
        (Inl e, sb1) \<Rightarrow> (Inl e, sb1)
      | (Inr _, sb1) \<Rightarrow>
          let db = i_block (inode_table sb1 ino) (OSFS_N_DIRECT + 1);
              dindirect_idx1 = block div OSFS_ADDR_PER_BLOCK;
              dindirect_idx2 = block mod OSFS_ADDR_PER_BLOCK
          in if DATA_BLOCK_COUNT \<le> unat db then (Inl OutOfBounds, sb1)
             else
               (case
                  (if get_entry sb1 db dindirect_idx1 = 0 then
                     (if \<not> create then (Inl ENOENT, sb1)
                      else
                        (case osfs_alloc_data_block sb1 of
                           (Inl e, sb2) \<Rightarrow> (Inl e, sb2)
                         | (Inr p, sb2) \<Rightarrow>
                             let sb3 = set_entry sb2 db dindirect_idx1 p;
                                 ib = get_entry sb3 db dindirect_idx1
                             in if DATA_BLOCK_COUNT \<le> unat ib then (Inl OutOfBounds, sb3)
                                else (Inr (), inc_i_blocks (memset_block sb3 ib) ino)))
                   else (Inr (), sb1))
                of
                  (Inl e, sb2) \<Rightarrow> (Inl e, sb2)
                | (Inr _, sb2) \<Rightarrow>
                    let ib = get_entry sb2 db dindirect_idx1
                    in if DATA_BLOCK_COUNT \<le> unat ib then (Inl OutOfBounds, sb2)
                       else if get_entry sb2 ib dindirect_idx2 = 0 \<and> create then
                         (case osfs_alloc_data_block sb2 of
                            (Inl e, sb3) \<Rightarrow> (Inl e, sb3)
                          | (Inr p, sb3) \<Rightarrow>
                              let sb4 = inc_i_blocks (set_entry sb3 ib dindirect_idx2 p) ino
                              in (Inr (get_entry sb4 ib dindirect_idx2), sb4))
                       else (Inr (get_entry sb2 ib dindirect_idx2), sb2)))"

text \<open>
  \<^verbatim>\<open>osfs_get_block\<close>: maps the logical block \<open>block\<close> of inode \<open>ino\<close> to a
  physical block number, allocating on the way when \<open>create\<close> is set.
\<close>

definition osfs_get_block :: "osfs_sb_info \<Rightarrow> nat \<Rightarrow> nat \<Rightarrow> bool \<Rightarrow> u32 ret" where
  "osfs_get_block sb ino block create =
     (if block < OSFS_N_DIRECT then
        (if i_block (inode_table sb ino) block = 0 \<and> create then
           (case osfs_alloc_data_block sb of
              (Inl e, sb1) \<Rightarrow> (Inl e, sb1)
            | (Inr p, sb1) \<Rightarrow>
                let sb2 = inc_i_blocks (set_i_block sb1 ino block p) ino
                in (Inr (i_block (inode_table sb2 ino) block), sb2))
         else (Inr (i_block (inode_table sb ino) block), sb))
      else
        let block1 = block - OSFS_N_DIRECT
        in if block1 < OSFS_ADDR_PER_BLOCK then get_block_indirect sb ino block1 create
           else
             let block2 = block1 - OSFS_ADDR_PER_BLOCK
             in if block2 < OSFS_ADDR_PER_BLOCK * OSFS_ADDR_PER_BLOCK
                then get_block_dindirect sb ino block2 create
                else (Inl EFBIG, sb))"








subsection \<open>Directory entry store and create (dir.c)\<close>

text \<open>
  \<^verbatim>\<open>osfs_new_inode\<close>.  The result is the number of the new inode, which
  stands for the VFS inode whose \<^verbatim>\<open>i_private\<close> is that slot.
\<close>

definition osfs_new_inode :: "kernel_env \<Rightarrow> osfs_sb_info \<Rightarrow> u16 \<Rightarrow> nat ret" where
  "osfs_new_inode env sb mode =
     (if \<not> S_ISDIR mode \<and> \<not> S_ISREG mode \<and> \<not> S_ISLNK mode then (Inl EINVAL, sb)
      else if nr_free_inodes sb = 0 then (Inl ENOSPC, sb)
      else
        (case osfs_get_free_inode sb of
           (Inl e, sb1) \<Rightarrow> (Inl e, sb1)
         | (Inr ino, sb1) \<Rightarrow>
             if ino \<ge> unat (inode_count sb1) then (Inl ENOSPC, sb1)
             else if \<not> new_inode_ok env then (Inl ENOMEM, sb1)
             else
               (case osfs_get_osfs_inode sb1 ino of
                  None \<Rightarrow> (Inl EIO, sb1)
                | Some slot \<Rightarrow>
                    let osfs_inode = zero_inode\<lparr>i_ino := of_nat ino, i_mode := mode,
                          i_uid := fsuid env, i_gid := fsgid env, i_size := 0, i_blocks := 0,
                          i_atime := cur_time env, i_mtime := cur_time env,
                          i_ctime := cur_time env, i_block := (\<lambda>_. 0)\<rparr>;
                        sb2 = sb1\<lparr>inode_table := (inode_table sb1)(slot := osfs_inode)\<rparr>
                    in (Inr ino, sb2\<lparr>nr_free_inodes := nr_free_inodes sb2 - 1\<rparr>))))"

text \<open>
  \<^verbatim>\<open>strlen\<close> of the string at offset \<open>base\<close> of a block, scanning from index
  \<open>k\<close>; a scan that leaves the block is out of bounds.
\<close>

function c_strlen :: "block \<Rightarrow> nat \<Rightarrow> nat \<Rightarrow> error + nat" where
  "c_strlen blk base k =
     (if BLOCK_SIZE \<le> base + k then Inl OutOfBounds
      else if blk (base + k) = 0 then Inr k
      else c_strlen blk base (k + 1))"
  by pat_completeness auto
termination
  by (relation "measure (\<lambda>(blk, base, k). BLOCK_SIZE - (base + k))") auto

declare c_strlen.simps [simp del]

text \<open>
  \<^verbatim>\<open>strncmp(s, name, n) == 0\<close> for the string \<open>s\<close> at offset \<open>base\<close> of a block
  and \<open>n\<close> the length of \<open>name\<close>, comparing from index \<open>k\<close>.
\<close>

function c_strncmp_eq :: "block \<Rightarrow> nat \<Rightarrow> u8 list \<Rightarrow> nat \<Rightarrow> bool" where
  "c_strncmp_eq blk base name k =
     (if k < length name then
        (if blk (base + k) \<noteq> name ! k then False
         else if blk (base + k) = 0 then True
         else c_strncmp_eq blk base name (k + 1))
      else True)"
  by pat_completeness auto
termination
  by (relation "measure (\<lambda>(blk, base, name, k). length name - k)") auto

declare c_strncmp_eq.simps [simp del]

text \<open>
  The bytes \<^verbatim>\<open>strncpy(dst, src, n)\<close> stores: the bytes of \<open>src\<close> up to its first
  NUL, at most \<open>n\<close> of them, padded with NULs to \<open>n\<close> bytes.
\<close>

definition c_strncpy :: "u8 list \<Rightarrow> nat \<Rightarrow> u8 list" where
  "c_strncpy src n =
     (let s = takeWhile (\<lambda>c. c \<noteq> 0) (take n src) in s @ replicate (n - length s) 0)"

text \<open>
  The duplicate-name loop of \<^verbatim>\<open>osfs_add_dir_entry\<close>,
  \<^verbatim>\<open>for (i = 0; i < dir_entry_count; i++)\<close>, entered at \<open>i\<close>: whether an entry
  from \<open>i\<close> on carries \<open>name\<close>.
\<close>

function dir_has_name_from :: "block \<Rightarrow> u8 list \<Rightarrow> nat \<Rightarrow> nat \<Rightarrow> error + bool" where
  "dir_has_name_from blk name dir_entry_count i =
     (if i < dir_entry_count then
        (case c_strlen blk (i * DIR_ENTRY_SIZE) 0 of
           Inl e \<Rightarrow> Inl e
         | Inr l \<Rightarrow>
             if l = length name \<and> c_strncmp_eq blk (i * DIR_ENTRY_SIZE) name 0 then Inr True
             else dir_has_name_from blk name dir_entry_count (i + 1))
      else Inr False)"
  by pat_completeness auto
termination
  by (relation "measure (\<lambda>(blk, name, n, i). n - i)") auto

declare dir_has_name_from.simps [simp del]

text \<open>
  \<^verbatim>\<open>osfs_add_dir_entry\<close>: entry \<open>i\<close> of a directory occupies the bytes from
  \<open>i * DIR_ENTRY_SIZE\<close> of the directory's block \<^verbatim>\<open>i_block[0]\<close>.
\<close>

definition osfs_add_dir_entry :: "osfs_sb_info \<Rightarrow> nat \<Rightarrow> u32 \<Rightarrow> u8 list \<Rightarrow> unit ret" where
  "osfs_add_dir_entry sb dir inode_no name =
     (case
        (if i_blocks (inode_table sb dir) = 0 then
           (case osfs_alloc_data_block sb of
              (Inl e, sb1) \<Rightarrow> (Inl e, sb1)
            | (Inr p, sb1) \<Rightarrow>
                let sb2 = set_i_block sb1 dir 0 p;
                    sb3 = sb2\<lparr>inode_table := (inode_table sb2)
                            (dir := (inode_table sb2 dir)\<lparr>i_blocks := 1\<rparr>)\<rparr>;
                    b = i_block (inode_table sb3 dir) 0
                in if DATA_BLOCK_COUNT \<le> unat b then (Inl OutOfBounds, sb3)
                   else (Inr (), memset_block sb3 b))
         else (Inr (), sb))
      of
        (Inl e, sb1) \<Rightarrow> (Inl e, sb1)
      | (Inr _, sb1) \<Rightarrow>
          let b = i_block (inode_table sb1 dir) 0;
              dir_entry_count = unat (i_size (inode_table sb1 dir)) div DIR_ENTRY_SIZE
          in if dir_entry_count \<ge> MAX_DIR_ENTRIES then (Inl ENOSPC, sb1)
             else if DATA_BLOCK_COUNT \<le> unat b then (Inl OutOfBounds, sb1)
             else
               (case dir_has_name_from (data_blocks sb1 (unat b)) name dir_entry_count 0 of
                  Inl e \<Rightarrow> (Inl e, sb1)
                | Inr True \<Rightarrow> (Inl EEXIST, sb1)
                | Inr False \<Rightarrow>
                    let base = dir_entry_count * DIR_ENTRY_SIZE;
                        blk1 = blk_write (data_blocks sb1 (unat b)) base
                                 (c_strncpy name (length name));
                        blk2 = blk1(base + length name := 0);
                        blk3 = put_u32 blk2 ((base + DIR_ENTRY_INO_OFFSET) div 4) inode_no;
                        sb2 = sb1\<lparr>data_blocks := (data_blocks sb1)(unat b := blk3)\<rparr>
                    in (Inr (),
                        sb2\<lparr>inode_table := (inode_table sb2)
                              (dir := (inode_table sb2 dir)
                                 \<lparr>i_size := i_size (inode_table sb2 dir) + of_nat DIR_ENTRY_SIZE\<rparr>)\<rparr>)))"

text \<open>
  \<^verbatim>\<open>osfs_create\<close>; the result is the number of the inode created.  The
  updates of the VFS directory inode and of the dentry belong to the host.
\<close>

definition osfs_create :: "kernel_env \<Rightarrow> osfs_sb_info \<Rightarrow> nat \<Rightarrow> u8 list \<Rightarrow> u16 \<Rightarrow> nat ret" where
  "osfs_create env sb dir name mode =
     (if length name > MAX_FILENAME_LEN then (Inl ENAMETOOLONG, sb)
      else
        (case osfs_new_inode env sb mode of
           (Inl e, sb1) \<Rightarrow> (Inl e, sb1)
         | (Inr ino, sb1) \<Rightarrow>
             (case osfs_add_dir_entry sb1 dir (of_nat ino) name of
                (Inl e, sb2) \<Rightarrow> (Inl e, sb2)
              | (Inr _, sb2) \<Rightarrow> (Inr ino, sb2))))"

subsection \<open>Read and write (file.c)\<close>

text \<open>
  The loop of \<^verbatim>\<open>osfs_write\<close>.  \<open>buf\<close> is what is left of the user's buffer, so
  \<^verbatim>\<open>len\<close> is its length.  The first component of the result is the error of
  an early \<^verbatim>\<open>return\<close>, or \<open>None\<close> when the loop ends or breaks; the last two
  are \<^verbatim>\<open>*ppos\<close> and \<^verbatim>\<open>bytes_written\<close>.  A failing \<^verbatim>\<open>copy_from_user\<close> stores
  nothing.
\<close>

function write_loop ::
  "kernel_env \<Rightarrow> osfs_sb_info \<Rightarrow> nat \<Rightarrow> u8 list \<Rightarrow> nat \<Rightarrow> nat
     \<Rightarrow> error option \<times> osfs_sb_info \<times> nat \<times> nat" where
  "write_loop env sb ino buf ppos bytes_written =
     (if length buf > 0 then
        (let block = ppos div BLOCK_SIZE;
             offset = ppos mod BLOCK_SIZE;
             to_write = min (length buf) (BLOCK_SIZE - offset)
         in case osfs_get_block sb ino block True of
              (Inl e, sb1) \<Rightarrow>
                if e \<noteq> OutOfBounds \<and> bytes_written > 0 then (None, sb1, ppos, bytes_written)
                else (Some e, sb1, ppos, bytes_written)
            | (Inr phys_block, sb1) \<Rightarrow>
                if phys_block = 0 then
                  (if bytes_written > 0 then (None, sb1, ppos, bytes_written)
                   else (Some EIO, sb1, ppos, bytes_written))
                else if DATA_BLOCK_COUNT \<le> unat phys_block then
                  (Some OutOfBounds, sb1, ppos, bytes_written)
                else if \<not> user_copy_ok env then
                  (if bytes_written > 0 then (None, sb1, ppos, bytes_written)
                   else (Some EFAULT, sb1, ppos, bytes_written))
                else
                  write_loop env
                    (sb1\<lparr>data_blocks := (data_blocks sb1)
                           (unat phys_block :=
                              blk_write (data_blocks sb1 (unat phys_block)) offset
                                (take to_write buf))\<rparr>)
                    ino (drop to_write buf) (ppos + to_write) (bytes_written + to_write))
      else (None, sb, ppos, bytes_written))"
  by pat_completeness auto
termination
  by (relation "measure (\<lambda>(env, sb, ino, buf, ppos, bw). length buf)")
     (auto simp: BLOCK_SIZE_def)

declare write_loop.simps [simp del]

text \<open>
  \<^verbatim>\<open>osfs_write\<close>: the bytes \<open>buf\<close> at file position \<open>ppos\<close>.  The result is the
  count written or the error, the state, and the new file position.
\<close>

definition osfs_write ::
  "kernel_env \<Rightarrow> osfs_sb_info \<Rightarrow> nat \<Rightarrow> u8 list \<Rightarrow> nat \<Rightarrow> (error + nat) \<times> osfs_sb_info \<times> nat" where
  "osfs_write env sb ino buf ppos =
     (case write_loop env sb ino buf ppos 0 of
        (Some e, sb1, ppos1, bytes_written) \<Rightarrow> (Inl e, sb1, ppos1)
      | (None, sb1, ppos1, bytes_written) \<Rightarrow>
          let sb2 = (if ppos1 > unat (i_size (inode_table sb1 ino))
                     then sb1\<lparr>inode_table := (inode_table sb1)
                            (ino := (inode_table sb1 ino)\<lparr>i_size := of_nat ppos1\<rparr>)\<rparr>
                     else sb1);
              sb3 = sb2\<lparr>inode_table := (inode_table sb2)
                      (ino := (inode_table sb2 ino)
                         \<lparr>i_mtime := cur_time env, i_ctime := cur_time env\<rparr>)\<rparr>
          in (Inr bytes_written, sb3, ppos1))"

text \<open>
  The loop of \<^verbatim>\<open>osfs_read\<close>.  \<open>out\<close> is what has been stored into the user's
  buffer so far, so \<^verbatim>\<open>bytes_read\<close> is its length.  The test
  \<^verbatim>\<open>ret || phys_block == 0\<close> is the first branch and the zero case of the
  second: such a block reads as zero bytes.
\<close>

function read_loop ::
  "kernel_env \<Rightarrow> osfs_sb_info \<Rightarrow> nat \<Rightarrow> nat \<Rightarrow> nat \<Rightarrow> u8 list
     \<Rightarrow> (error + u8 list) \<times> osfs_sb_info \<times> nat" where
  "read_loop env sb ino len ppos out =
     (if len > 0 then
        (let block = ppos div BLOCK_SIZE;
             offset = ppos mod BLOCK_SIZE;
             to_read = min len (BLOCK_SIZE - offset)
         in case osfs_get_block sb ino block False of
              (Inl e, sb1) \<Rightarrow>
                if e = OutOfBounds then (Inl OutOfBounds, sb1, ppos)
                else if \<not> user_copy_ok env then
                  (if length out > 0 then (Inr out, sb1, ppos) else (Inl EFAULT, sb1, ppos))
                else read_loop env sb1 ino (len - to_read) (ppos + to_read)
                       (out @ replicate to_read 0)
            | (Inr phys_block, sb1) \<Rightarrow>
                if phys_block = 0 then
                  (if \<not> user_copy_ok env then
                     (if length out > 0 then (Inr out, sb1, ppos) else (Inl EFAULT, sb1, ppos))
                   else read_loop env sb1 ino (len - to_read) (ppos + to_read)
                          (out @ replicate to_read 0))
                else if DATA_BLOCK_COUNT \<le> unat phys_block then (Inl OutOfBounds, sb1, ppos)
                else if \<not> user_copy_ok env then
                  (if length out > 0 then (Inr out, sb1, ppos) else (Inl EFAULT, sb1, ppos))
                else read_loop env sb1 ino (len - to_read) (ppos + to_read)
                       (out @ blk_read (data_blocks sb1 (unat phys_block)) offset to_read))
      else (Inr out, sb, ppos))"
  by pat_completeness auto
termination
  by (relation "measure (\<lambda>(env, sb, ino, len, ppos, out). len)")
     (auto simp: BLOCK_SIZE_def)

declare read_loop.simps [simp del]

text \<open>
  \<^verbatim>\<open>osfs_read\<close>: up to \<open>len\<close> bytes from file position \<open>ppos\<close>.  The result is
  the bytes stored into the user's buffer (their number is the return value)
  or the error, the state, and the new file position.
\<close>

definition osfs_read ::
  "kernel_env \<Rightarrow> osfs_sb_info \<Rightarrow> nat \<Rightarrow> nat \<Rightarrow> nat \<Rightarrow> (error + u8 list) \<times> osfs_sb_info \<times> nat" where
  "osfs_read env sb ino len ppos =
     (if i_blocks (inode_table sb ino) = 0 then (Inr [], sb, ppos)
      else if ppos \<ge> unat (i_size (inode_table sb ino)) then (Inr [], sb, ppos)
      else
        let len1 = (if ppos + len > unat (i_size (inode_table sb ino))
                    then unat (i_size (inode_table sb ino)) - ppos else len)
        in read_loop env sb ino len1 ppos [])"

section \<open>Auxiliary definitions\<close>

subsection \<open>States of a running example\<close>

text \<open>
  A kernel in which every allocation and every user-space copy succeeds, the
  state \<^verbatim>\<open>osfs_fill_super\<close> builds in it, and the state after creating the
  regular file \<^verbatim>\<open>a.txt\<close> (mode 0644) in the root directory of that state.
\<close>

definition env_ok :: kernel_env where
  "env_ok = \<lparr>cur_time = (1700000000, 0), fsuid = 1000, fsgid = 1000, vmalloc_ok = True,
     new_inode_ok = True, d_make_root_ok = True, user_copy_ok = True\<rparr>"

definition root_inode_fresh :: osfs_inode where
  "root_inode_fresh = \<lparr>i_ino = 1, i_size = 0, i_blocks = 0, i_mode = 0x41ED,
     i_links_count = 2, i_uid = 0, i_gid = 0, i_atime = (1700000000, 0),
     i_mtime = (1700000000, 0), i_ctime = (1700000000, 0), i_block = (\<lambda>_. 0)\<rparr>"

definition sb_fresh :: osfs_sb_info where
  "sb_fresh = \<lparr>magic = 0x051AB520, block_size = 4096, inode_count = 20, block_count = 20,
     nr_free_inodes = 19, nr_free_blocks = 20,
     inode_bitmap = (\<lambda>_. False)(1 := True), block_bitmap = (\<lambda>_. False),
     inode_table = (\<lambda>_. zero_inode)(1 := root_inode_fresh),
     data_blocks = (\<lambda>_. zero_block)\<rparr>"

definition name_a :: "u8 list" where
  "name_a = [0x61, 0x2E, 0x74, 0x78, 0x74]"

definition mode_file :: u16 where
  "mode_file = 0x81A4"

definition file_inode_fresh :: osfs_inode where
  "file_inode_fresh = \<lparr>i_ino = 2, i_size = 0, i_blocks = 0, i_mode = 0x81A4,
     i_links_count = 0, i_uid = 1000, i_gid = 1000, i_atime = (1700000000, 0),
     i_mtime = (1700000000, 0), i_ctime = (1700000000, 0), i_block = (\<lambda>_. 0)\<rparr>"

definition root_dir_block :: block where
  "root_dir_block = put_u32 ((blk_write zero_block 0 name_a)(5 := 0)) 64 2"

definition sb_one_file :: osfs_sb_info where
  "sb_one_file = \<lparr>magic = 0x051AB520, block_size = 4096, inode_count = 20, block_count = 20,
     nr_free_inodes = 17, nr_free_blocks = 19,
     inode_bitmap = (\<lambda>_. False)(1 := True, 2 := True),
     block_bitmap = (\<lambda>_. False)(0 := True),
     inode_table = (\<lambda>_. zero_inode)
       (2 := file_inode_fresh,
        1 := root_inode_fresh\<lparr>i_size := 260, i_blocks := 1, i_block := (\<lambda>_. 0)(0 := 0)\<rparr>),
     data_blocks = (\<lambda>_. zero_block)(0 := root_dir_block)\<rparr>"

text \<open>
  The state after a second create in the root directory of the running
  example, of the regular file \<^verbatim>\<open>b\<close>: it gets inode 3 and the second entry
  of the directory block.
\<close>

definition name_b :: "u8 list" where
  "name_b = [0x62]"

definition sb_two_files :: osfs_sb_info where
  "sb_two_files = sb_one_file
     \<lparr>nr_free_inodes := 15,
      inode_bitmap := (inode_bitmap sb_one_file)(3 := True),
      inode_table := (inode_table sb_one_file)
        (3 := file_inode_fresh\<lparr>i_ino := 3\<rparr>,
         1 := (inode_table sb_one_file 1)\<lparr>i_size := 520\<rparr>),
      data_blocks := (data_blocks sb_one_file)
        (0 := put_u32 ((blk_write root_dir_block 260 name_b)(261 := 0)) 129 3)\<rparr>"

text \<open>A file name of exactly \<^verbatim>\<open>MAX_FILENAME_LEN\<close> bytes.\<close>

definition name_255 :: "u8 list" where
  "name_255 = replicate 255 0x61"

subsection \<open>Notions used to state the properties\<close>

text \<open>The state in which \<^verbatim>\<open>osfs_alloc_data_block\<close> leaves \<open>sb\<close> when it hands out \<open>p\<close>.\<close>

definition mark_used :: "osfs_sb_info \<Rightarrow> u32 \<Rightarrow> osfs_sb_info" where
  "mark_used sb p = sb\<lparr>block_bitmap := (block_bitmap sb)(unat p := True),
                        nr_free_blocks := nr_free_blocks sb - 1\<rparr>"

subsection \<open>The addressing tiers, as the specification words them\<close>

text \<open>
  The tier a logical block number falls into, with its index or indices
  inside the tier, and what a read-only lookup finds in the slot of a tier.
\<close>

datatype tier = Direct nat | Indirect nat | DoubleIndirect nat nat | TooBig

definition tier_of :: "nat \<Rightarrow> tier" where
  "tier_of b =
     (if b < OSFS_N_DIRECT then Direct b
      else if b - OSFS_N_DIRECT < OSFS_ADDR_PER_BLOCK then Indirect (b - OSFS_N_DIRECT)
      else if b - OSFS_N_DIRECT - OSFS_ADDR_PER_BLOCK < OSFS_ADDR_PER_BLOCK * OSFS_ADDR_PER_BLOCK
      then DoubleIndirect ((b - OSFS_N_DIRECT - OSFS_ADDR_PER_BLOCK) div OSFS_ADDR_PER_BLOCK)
                          ((b - OSFS_N_DIRECT - OSFS_ADDR_PER_BLOCK) mod OSFS_ADDR_PER_BLOCK)
      else TooBig)"

fun tier_lookup :: "osfs_sb_info \<Rightarrow> nat \<Rightarrow> tier \<Rightarrow> error + u32" where
  "tier_lookup sb ino (Direct i) = Inr (i_block (inode_table sb ino) i)"
| "tier_lookup sb ino (Indirect i) =
     (let ib = i_block (inode_table sb ino) OSFS_N_DIRECT
      in if ib = 0 then Inl ENOENT
         else if DATA_BLOCK_COUNT \<le> unat ib then Inl OutOfBounds
         else Inr (get_entry sb ib i))"
| "tier_lookup sb ino (DoubleIndirect outer inner) =
     (let db = i_block (inode_table sb ino) (OSFS_N_DIRECT + 1)
      in if db = 0 then Inl ENOENT
         else if DATA_BLOCK_COUNT \<le> unat db then Inl OutOfBounds
         else
           let ib = get_entry sb db outer
           in if ib = 0 then Inl ENOENT
              else if DATA_BLOCK_COUNT \<le> unat ib then Inl OutOfBounds
              else Inr (get_entry sb ib inner))"
| "tier_lookup sb ino TooBig = Inl EFBIG"

text \<open>
  Resolution with allocation, in the words of the specification.  A pointer
  slot on the path to a data block is pointer \<open>k\<close> of the inode or entry \<open>i\<close>
  of the index block \<open>p\<close>; an entry can be accessed only when \<open>p\<close> lies
  inside the data area.
\<close>

datatype slot = Ptr nat | Entry u32 nat

fun slot_ok :: "slot \<Rightarrow> bool" where
  "slot_ok (Ptr k) = True"
| "slot_ok (Entry p i) = (unat p < DATA_BLOCK_COUNT)"

fun slot_get :: "osfs_sb_info \<Rightarrow> nat \<Rightarrow> slot \<Rightarrow> u32" where
  "slot_get sb ino (Ptr k) = i_block (inode_table sb ino) k"
| "slot_get sb ino (Entry p i) = get_entry sb p i"

fun slot_set :: "osfs_sb_info \<Rightarrow> nat \<Rightarrow> slot \<Rightarrow> u32 \<Rightarrow> osfs_sb_info" where
  "slot_set sb ino (Ptr k) v = set_i_block sb ino k v"
| "slot_set sb ino (Entry p i) v = set_entry sb p i v"

text \<open>
  The data block of a slot: allocated on demand when the slot is 0 and
  \<open>create\<close> is set, the new number being stored in that slot and the inode's
  usage counter incremented; otherwise what the slot holds.
\<close>

definition data_slot :: "osfs_sb_info \<Rightarrow> nat \<Rightarrow> slot \<Rightarrow> bool \<Rightarrow> u32 ret" where
  "data_slot sb ino s create =
     (if \<not> slot_ok s then (Inl OutOfBounds, sb)
      else if slot_get sb ino s = 0 \<and> create then
        (case osfs_alloc_data_block sb of
           (Inl e, sb1) \<Rightarrow> (Inl e, sb1)
         | (Inr p, sb1) \<Rightarrow>
             let sb2 = inc_i_blocks (slot_set sb1 ino s p) ino
             in (Inr (slot_get sb2 ino s), sb2))
      else (Inr (slot_get sb ino s), sb))"

text \<open>
  The index block of a slot, allocated lazily: when the slot is 0, without
  \<open>create\<close> the block is not found; with \<open>create\<close> a block is allocated, its
  number stored in that slot, the block zero-filled and the inode's usage
  counter incremented.
\<close>

definition index_slot :: "osfs_sb_info \<Rightarrow> nat \<Rightarrow> slot \<Rightarrow> bool \<Rightarrow> unit ret" where
  "index_slot sb ino s create =
     (if \<not> slot_ok s then (Inl OutOfBounds, sb)
      else if slot_get sb ino s \<noteq> 0 then (Inr (), sb)
      else if \<not> create then (Inl ENOENT, sb)
      else
        (case osfs_alloc_data_block sb of
           (Inl e, sb1) \<Rightarrow> (Inl e, sb1)
         | (Inr p, sb1) \<Rightarrow>
             let sb2 = slot_set sb1 ino s p;
                 q = slot_get sb2 ino s
             in if DATA_BLOCK_COUNT \<le> unat q then (Inl OutOfBounds, sb2)
                else (Inr (), inc_i_blocks (memset_block sb2 q) ino)))"

text \<open>
  The walk of a tier: a direct pointer is the slot of the data block; in the
  single-indirect tier the index block of pointer \<^verbatim>\<open>OSFS_N_DIRECT\<close> is
  ensured and its entry is the slot of the data block; in the double-indirect
  tier the top-level index block of pointer \<^verbatim>\<open>OSFS_N_DIRECT + 1\<close> is ensured,
  then the second-level index block of its entry \<open>outer\<close>, whose entry
  \<open>inner\<close> is the slot of the data block.
\<close>

fun tier_resolve :: "osfs_sb_info \<Rightarrow> nat \<Rightarrow> tier \<Rightarrow> bool \<Rightarrow> u32 ret" where
  "tier_resolve sb ino (Direct i) create = data_slot sb ino (Ptr i) create"
| "tier_resolve sb ino (Indirect i) create =
     (case index_slot sb ino (Ptr OSFS_N_DIRECT) create of
        (Inl e, sb1) \<Rightarrow> (Inl e, sb1)
      | (Inr _, sb1) \<Rightarrow>
          data_slot sb1 ino (Entry (slot_get sb1 ino (Ptr OSFS_N_DIRECT)) i) create)"
| "tier_resolve sb ino (DoubleIndirect outer inner) create =
     (case index_slot sb ino (Ptr (OSFS_N_DIRECT + 1)) create of
        (Inl e, sb1) \<Rightarrow> (Inl e, sb1)
      | (Inr _, sb1) \<Rightarrow>
          let top = Entry (slot_get sb1 ino (Ptr (OSFS_N_DIRECT + 1))) outer
          in case index_slot sb1 ino top create of
               (Inl e, sb2) \<Rightarrow> (Inl e, sb2)
             | (Inr _, sb2) \<Rightarrow>
                 data_slot sb2 ino (Entry (slot_get sb2 ino top) inner) create)"
| "tier_resolve sb ino TooBig create = (Inl EFBIG, sb)"

text \<open>The state after the file of the running example got physical block 1 as its logical block 0.\<close>

definition sb_one_block :: osfs_sb_info where
  "sb_one_block = inc_i_blocks (set_i_block (mark_used sb_one_file 1) 2 0 1) 2"

subsection \<open>A file written sequentially from offset 0\<close>

text \<open>
  A block that a file may point to: not 0, inside the block range and marked
  used.
\<close>

definition blk_ok :: "osfs_sb_info \<Rightarrow> u32 \<Rightarrow> bool" where
  "blk_ok sb p = (p \<noteq> 0 \<and> unat p < unat (block_count sb) \<and> block_bitmap sb (unat p))"

text \<open>
  The pointer of logical block \<open>j\<close> in the direct and single-indirect
  ranges.
\<close>

definition file_block :: "osfs_sb_info \<Rightarrow> nat \<Rightarrow> nat \<Rightarrow> u32" where
  "file_block sb ino j =
     (if j < OSFS_N_DIRECT then i_block (inode_table sb ino) j
      else get_entry sb (i_block (inode_table sb ino) OSFS_N_DIRECT) (j - OSFS_N_DIRECT))"

text \<open>
  The number of blocks a file with \<open>k\<close> data blocks occupies while the
  double-indirect range is not reached: one more once the indirect index
  block exists.
\<close>

definition blocks_used :: "nat \<Rightarrow> nat" where
  "blocks_used k = k + (if OSFS_N_DIRECT < k then 1 else 0)"

text \<open>
  The shape of inode \<open>ino\<close> after its first \<open>k\<close> logical blocks have been
  written in order into a file that had no block: exactly these \<open>k\<close> blocks
  are mapped, to usable blocks other than the index block; every other slot
  is 0; \<open>Z\<close> and \<open>F\<close> are the number of zero bits of the block bitmap and
  the counter \<^verbatim>\<open>nr_free_blocks\<close> before the first write.
\<close>

definition seq_file :: "osfs_sb_info \<Rightarrow> nat \<Rightarrow> nat \<Rightarrow> nat \<Rightarrow> u32 \<Rightarrow> bool" where
  "seq_file sb ino k Z F =
     (unat (block_count sb) \<le> DATA_BLOCK_COUNT \<and> Z \<le> DATA_BLOCK_COUNT \<and>
      block_bitmap sb 0 \<and>
      zero_bits (block_bitmap sb) (unat (block_count sb)) + blocks_used k = Z \<and>
      nr_free_blocks sb + of_nat (blocks_used k) = F \<and>
      unat (i_blocks (inode_table sb ino)) = blocks_used k \<and>
      (\<forall>j. j < k \<longrightarrow> blk_ok sb (file_block sb ino j)) \<and>
      (\<forall>j. k \<le> j \<and> j < OSFS_N_DIRECT \<longrightarrow> i_block (inode_table sb ino) j = 0) \<and>
      i_block (inode_table sb ino) (OSFS_N_DIRECT + 1) = 0 \<and>
      (k \<le> OSFS_N_DIRECT \<longrightarrow> i_block (inode_table sb ino) OSFS_N_DIRECT = 0) \<and>
      (OSFS_N_DIRECT < k \<longrightarrow>
         blk_ok sb (i_block (inode_table sb ino) OSFS_N_DIRECT) \<and>
         (\<forall>j. j < k \<longrightarrow> file_block sb ino j \<noteq> i_block (inode_table sb ino) OSFS_N_DIRECT) \<and>
         (\<forall>i. k - OSFS_N_DIRECT \<le> i \<and> i < OSFS_ADDR_PER_BLOCK \<longrightarrow>
               get_entry sb (i_block (inode_table sb ino) OSFS_N_DIRECT) i = 0)))"

text \<open>The \<open>j\<close>-th block-sized piece of a byte sequence.\<close>

definition chunk :: "nat \<Rightarrow> u8 list \<Rightarrow> u8 list" where
  "chunk j W = take BLOCK_SIZE (drop (j * BLOCK_SIZE) W)"

text \<open>The mapped blocks of the file hold the pieces of \<open>W\<close>.\<close>

definition holds_bytes :: "osfs_sb_info \<Rightarrow> nat \<Rightarrow> nat \<Rightarrow> u8 list \<Rightarrow> bool" where
  "holds_bytes sb ino k W =
     (\<forall>j. j < k \<longrightarrow>
        blk_read (data_blocks sb (unat (file_block sb ino j))) 0 (length (chunk j W)) = chunk j W)"


section \<open>Basic facts\<close>

lemmas osfs_consts = OSFS_MAGIC_def BLOCK_SIZE_def INODE_COUNT_def DATA_BLOCK_COUNT_def
  MAX_FILENAME_LEN_def DIR_ENTRY_SIZE_def DIR_ENTRY_INO_OFFSET_def MAX_DIR_ENTRIES_def
  OSFS_N_DIRECT_def OSFS_ADDR_PER_BLOCK_def BITS_PER_LONG_def BITMAP_SIZE_def
  INODE_BITMAP_SIZE_def BLOCK_BITMAP_SIZE_def INODE_BITMAP_BITS_def BLOCK_BITMAP_BITS_def
  ROOT_INODE_def S_IFMT_def S_IFDIR_def S_IFREG_def S_IFLNK_def S_ISDIR_def S_ISREG_def
  S_ISLNK_def

subsection \<open>Index entries\<close>

lemma get_put_u32_same: "get_u32 (put_u32 blk i v) i = v"
proof (rule bit_word_eqI)
  fix n assume n: "n < LENGTH(32)"
  have c: "n < 8 \<or> (8 \<le> n \<and> n < 16) \<or> (16 \<le> n \<and> n < 24) \<or> (24 \<le> n \<and> n < 32)"
    using n by auto
  show "bit (get_u32 (put_u32 blk i v) i) n = bit v n"
    using c n unfolding get_u32_def put_u32_def
    by (auto simp: bit_simps)
qed

lemma get_put_u32_other: "i \<noteq> j \<Longrightarrow> get_u32 (put_u32 blk i v) j = get_u32 blk j"
  unfolding get_u32_def put_u32_def by simp

lemma get_put_u32: "get_u32 (put_u32 blk i v) j = (if i = j then v else get_u32 blk j)"
  by (simp add: get_put_u32_same get_put_u32_other)

lemma get_u32_zero: "get_u32 zero_block i = 0"
  by (simp add: get_u32_def zero_block_def)

subsection \<open>Fields of an updated state\<close>

lemma set_i_block_fields [simp]:
  "block_bitmap (set_i_block sb ino k v) = block_bitmap sb"
  "inode_bitmap (set_i_block sb ino k v) = inode_bitmap sb"
  "data_blocks (set_i_block sb ino k v) = data_blocks sb"
  "block_count (set_i_block sb ino k v) = block_count sb"
  "inode_count (set_i_block sb ino k v) = inode_count sb"
  "nr_free_blocks (set_i_block sb ino k v) = nr_free_blocks sb"
  "nr_free_inodes (set_i_block sb ino k v) = nr_free_inodes sb"
  "inode_table (set_i_block sb ino k v) ino' =
     (if ino' = ino then (inode_table sb ino)\<lparr>i_block := (i_block (inode_table sb ino))(k := v)\<rparr>
      else inode_table sb ino')"
  by (simp_all add: set_i_block_def)

lemma inc_i_blocks_fields [simp]:
  "block_bitmap (inc_i_blocks sb ino) = block_bitmap sb"
  "inode_bitmap (inc_i_blocks sb ino) = inode_bitmap sb"
  "data_blocks (inc_i_blocks sb ino) = data_blocks sb"
  "block_count (inc_i_blocks sb ino) = block_count sb"
  "inode_count (inc_i_blocks sb ino) = inode_count sb"
  "nr_free_blocks (inc_i_blocks sb ino) = nr_free_blocks sb"
  "nr_free_inodes (inc_i_blocks sb ino) = nr_free_inodes sb"
  "inode_table (inc_i_blocks sb ino) ino' =
     (if ino' = ino then (inode_table sb ino)\<lparr>i_blocks := i_blocks (inode_table sb ino) + 1\<rparr>
      else inode_table sb ino')"
  by (simp_all add: inc_i_blocks_def)

lemma set_entry_fields [simp]:
  "block_bitmap (set_entry sb p i v) = block_bitmap sb"
  "inode_bitmap (set_entry sb p i v) = inode_bitmap sb"
  "inode_table (set_entry sb p i v) = inode_table sb"
  "block_count (set_entry sb p i v) = block_count sb"
  "inode_count (set_entry sb p i v) = inode_count sb"
  "nr_free_blocks (set_entry sb p i v) = nr_free_blocks sb"
  "nr_free_inodes (set_entry sb p i v) = nr_free_inodes sb"
  "data_blocks (set_entry sb p i v) q =
     (if q = unat p then put_u32 (data_blocks sb (unat p)) i v else data_blocks sb q)"
  by (simp_all add: set_entry_def)

lemma memset_block_fields [simp]:
  "block_bitmap (memset_block sb p) = block_bitmap sb"
  "inode_bitmap (memset_block sb p) = inode_bitmap sb"
  "inode_table (memset_block sb p) = inode_table sb"
  "block_count (memset_block sb p) = block_count sb"
  "inode_count (memset_block sb p) = inode_count sb"
  "nr_free_blocks (memset_block sb p) = nr_free_blocks sb"
  "nr_free_inodes (memset_block sb p) = nr_free_inodes sb"
  "data_blocks (memset_block sb p) q = (if q = unat p then zero_block else data_blocks sb q)"
  by (simp_all add: memset_block_def)

lemma mark_used_fields [simp]:
  "block_bitmap (mark_used sb p) j = (j = unat p \<or> block_bitmap sb j)"
  "inode_bitmap (mark_used sb p) = inode_bitmap sb"
  "inode_table (mark_used sb p) = inode_table sb"
  "data_blocks (mark_used sb p) = data_blocks sb"
  "block_count (mark_used sb p) = block_count sb"
  "inode_count (mark_used sb p) = inode_count sb"
  "nr_free_blocks (mark_used sb p) = nr_free_blocks sb - 1"
  "nr_free_inodes (mark_used sb p) = nr_free_inodes sb"
  by (simp_all add: mark_used_def)

lemma get_entry_simps [simp]:
  "get_entry (set_i_block sb ino k v) q j = get_entry sb q j"
  "get_entry (inc_i_blocks sb ino) q j = get_entry sb q j"
  "get_entry (mark_used sb p) q j = get_entry sb q j"
  "get_entry (set_entry sb p i v) q j = (if q = p \<and> i = j then v else get_entry sb q j)"
  "get_entry (memset_block sb p) q j = (if q = p then 0 else get_entry sb q j)"
  by (auto simp: get_entry_def get_put_u32 get_u32_zero word_unat_eq_iff)

subsection \<open>The block allocator\<close>

lemma alloc_from_Inr:
  "alloc_data_block_from sb i = (Inr p, sb') \<Longrightarrow>
     i \<le> unat p \<and> unat p < unat (block_count sb) \<and> unat p < BLOCK_BITMAP_BITS \<and>
     \<not> block_bitmap sb (unat p) \<and> (\<forall>j. i \<le> j \<and> j < unat p \<longrightarrow> block_bitmap sb j) \<and>
     sb' = mark_used sb p"
proof (induction sb i rule: alloc_data_block_from.induct)
  case (1 sb i)
  show ?case
  proof (cases "i < unat (block_count sb) \<and> \<not> BLOCK_BITMAP_BITS \<le> i \<and> block_bitmap sb i")
    case True
    then have "alloc_data_block_from sb (i + 1) = (Inr p, sb')"
      using "1.prems" by (subst (asm) alloc_data_block_from.simps) simp
    with True have IH: "i + 1 \<le> unat p \<and> unat p < unat (block_count sb) \<and>
        unat p < BLOCK_BITMAP_BITS \<and> \<not> block_bitmap sb (unat p) \<and>
        (\<forall>j. i + 1 \<le> j \<and> j < unat p \<longrightarrow> block_bitmap sb j) \<and> sb' = mark_used sb p"
      using "1.IH" by simp
    have "\<forall>j. i \<le> j \<and> j < unat p \<longrightarrow> block_bitmap sb j"
    proof (intro allI impI)
      fix j assume "i \<le> j \<and> j < unat p"
      then show "block_bitmap sb j" using IH True by (cases "j = i") auto
    qed
    with IH show ?thesis by simp
  next
    case False
    then have eq: "i < unat (block_count sb)" "\<not> BLOCK_BITMAP_BITS \<le> i"
        "\<not> block_bitmap sb i" "p = of_nat i"
        "sb' = sb\<lparr>block_bitmap := (block_bitmap sb)(i := True),
                  nr_free_blocks := nr_free_blocks sb - 1\<rparr>"
      using "1.prems" by (subst (asm) alloc_data_block_from.simps, auto split: if_splits)+
    have "unat (block_count sb) < 2 ^ 32"
      using unsigned_less[of "block_count sb"] by simp
    then have "i < 2 ^ 32" using eq(1) by simp
    then have "unat p = i" using eq(4) by (simp add: unat_of_nat take_bit_nat_eq_self)
    with eq show ?thesis by (auto simp: mark_used_def)
  qed
qed

lemma alloc_from_Inl:
  "alloc_data_block_from sb i = (Inl e, sb') \<Longrightarrow> sb' = sb \<and> (e = ENOSPC \<or> e = OutOfBounds)"
proof (induction sb i rule: alloc_data_block_from.induct)
  case (1 sb i)
  then show ?case
    by (subst (asm) (2) alloc_data_block_from.simps) (auto split: if_splits)
qed

lemma alloc_from_exists:
  "i \<le> k \<Longrightarrow> k < unat (block_count sb) \<Longrightarrow> \<not> block_bitmap sb k
     \<Longrightarrow> unat (block_count sb) \<le> BLOCK_BITMAP_BITS
     \<Longrightarrow> \<exists>p sb'. alloc_data_block_from sb i = (Inr p, sb')"
proof (induction sb i rule: alloc_data_block_from.induct)
  case (1 sb i)
  show ?case
  proof (cases "block_bitmap sb i")
    case True
    then have "i \<noteq> k" using 1 by auto
    then have "i + 1 \<le> k" using 1 by simp
    moreover have "i < unat (block_count sb)" "\<not> BLOCK_BITMAP_BITS \<le> i" using 1 by auto
    ultimately show ?thesis using "1.IH" "1.prems" True
      by (subst alloc_data_block_from.simps) simp
  next
    case False
    moreover have "i < unat (block_count sb)" "\<not> BLOCK_BITMAP_BITS \<le> i" using 1 by auto
    ultimately show ?thesis by (subst alloc_data_block_from.simps) simp
  qed
qed

lemma alloc_from_full:
  "(\<forall>j. i \<le> j \<and> j < unat (block_count sb) \<longrightarrow> block_bitmap sb j)
     \<Longrightarrow> unat (block_count sb) \<le> BLOCK_BITMAP_BITS
     \<Longrightarrow> alloc_data_block_from sb i = (Inl ENOSPC, sb)"
proof (induction sb i rule: alloc_data_block_from.induct)
  case (1 sb i)
  show ?case
  proof (cases "i < unat (block_count sb)")
    case True
    then have "block_bitmap sb i" "\<not> BLOCK_BITMAP_BITS \<le> i" using "1.prems" by auto
    then show ?thesis using True "1.IH" "1.prems"
      by (subst alloc_data_block_from.simps) simp
  next
    case False
    then show ?thesis by (subst alloc_data_block_from.simps) simp
  qed
qed

lemma alloc_Inr:
  "osfs_alloc_data_block sb = (Inr p, sb') \<Longrightarrow>
     unat p < unat (block_count sb) \<and> unat p < BLOCK_BITMAP_BITS \<and>
     \<not> block_bitmap sb (unat p) \<and> (\<forall>j < unat p. block_bitmap sb j) \<and> sb' = mark_used sb p"
  unfolding osfs_alloc_data_block_def by (drule alloc_from_Inr) simp

lemma alloc_Inl:
  "osfs_alloc_data_block sb = (Inl e, sb') \<Longrightarrow> sb' = sb \<and> (e = ENOSPC \<or> e = OutOfBounds)"
  unfolding osfs_alloc_data_block_def by (rule alloc_from_Inl)

lemma zero_bits_pos_iff: "0 < zero_bits bm n \<longleftrightarrow> (\<exists>i<n. \<not> bm i)"
  by (auto simp: zero_bits_def filter_empty_conv)

lemma zero_bits_le: "zero_bits bm n \<le> n"
  unfolding zero_bits_def using length_filter_le[of "\<lambda>i. \<not> bm i" "[0..<n]"] by simp

lemma zero_bits_set:
  "p < n \<Longrightarrow> \<not> bm p \<Longrightarrow> zero_bits (bm(p := True)) n = zero_bits bm n - 1"
proof (induction n)
  case 0 then show ?case by simp
next
  case (Suc n)
  show ?case
  proof (cases "p = n")
    case True
    have "filter (\<lambda>i. \<not> (bm(n := True)) i) [0..<n] = filter (\<lambda>i. \<not> bm i) [0..<n]"
      by (rule filter_cong) auto
    with True Suc.prems show ?thesis by (simp add: zero_bits_def)
  next
    case False
    with Suc.prems have pn: "p < n" by simp
    then have IH: "zero_bits (bm(p := True)) n = zero_bits bm n - 1" using Suc by blast
    have pos: "0 < zero_bits bm n" using pn Suc.prems by (auto simp: zero_bits_pos_iff)
    have "zero_bits (bm(p := True)) (Suc n) =
            zero_bits (bm(p := True)) n + (if bm n then 0 else 1)"
      using False by (simp add: zero_bits_def)
    also have "\<dots> = zero_bits bm n - 1 + (if bm n then 0 else 1)" by (simp only: IH)
    also have "\<dots> = zero_bits bm (Suc n) - 1" using pos by (simp add: zero_bits_def)
    finally show ?thesis .
  qed
qed

lemma alloc_exists:
  assumes "0 < zero_bits (block_bitmap sb) (unat (block_count sb))"
    and "unat (block_count sb) \<le> BLOCK_BITMAP_BITS"
  shows "\<exists>p. osfs_alloc_data_block sb = (Inr p, mark_used sb p)"
proof -
  obtain k where "k < unat (block_count sb)" "\<not> block_bitmap sb k"
    using assms(1) by (auto simp: zero_bits_pos_iff)
  then obtain p sb' where r: "alloc_data_block_from sb 0 = (Inr p, sb')"
    using alloc_from_exists[of 0 k sb] assms(2) by auto
  then have "sb' = mark_used sb p" using alloc_from_Inr by blast
  with r show ?thesis by (auto simp: osfs_alloc_data_block_def)
qed

lemma alloc_full:
  assumes "zero_bits (block_bitmap sb) (unat (block_count sb)) = 0"
    and "unat (block_count sb) \<le> BLOCK_BITMAP_BITS"
  shows "osfs_alloc_data_block sb = (Inl ENOSPC, sb)"
proof -
  have "\<forall>j. j < unat (block_count sb) \<longrightarrow> block_bitmap sb j"
    using assms(1) zero_bits_pos_iff[of "block_bitmap sb" "unat (block_count sb)"] by auto
  then show ?thesis
    unfolding osfs_alloc_data_block_def using assms(2) by (intro alloc_from_full) auto
qed

lemma zero_bits_mark_used:
  "unat p < unat (block_count sb) \<Longrightarrow> \<not> block_bitmap sb (unat p) \<Longrightarrow>
   zero_bits (block_bitmap (mark_used sb p)) (unat (block_count sb)) =
     zero_bits (block_bitmap sb) (unat (block_count sb)) - 1"
  by (simp add: mark_used_def zero_bits_set)

subsection \<open>The running example\<close>

lemmas create_defs = osfs_create_def osfs_new_inode_def osfs_get_free_inode_def
  get_free_inode_from.simps osfs_get_osfs_inode_def Let_def osfs_add_dir_entry_def
  osfs_alloc_data_block_def alloc_data_block_from.simps set_i_block_def memset_block_def
  dir_has_name_from.simps c_strncpy_def

lemma mount_fresh: "osfs_fill_super env_ok = Inr (sb_fresh, 1)"
  by (simp add: osfs_fill_super_def env_ok_def sb_fresh_def root_inode_fresh_def
      zero_inode_def osfs_consts osfs_get_osfs_inode_def Let_def)

lemma create_one_file: "osfs_create env_ok sb_fresh 1 name_a mode_file = (Inr 2, sb_one_file)"
  by (simp add: sb_fresh_def sb_one_file_def env_ok_def name_a_def mode_file_def osfs_consts
      create_defs root_inode_fresh_def file_inode_fresh_def root_dir_block_def zero_inode_def
      numeral_2_eq_2[symmetric] eval_nat_numeral(2)[symmetric] del: One_nat_def)

lemma c_strlen_eq:
  "k \<le> n \<Longrightarrow> (\<forall>j. k \<le> j \<and> j < n \<longrightarrow> blk (base + j) \<noteq> 0) \<Longrightarrow> blk (base + n) = 0
     \<Longrightarrow> base + n < BLOCK_SIZE \<Longrightarrow> c_strlen blk base k = Inr n"
proof (induction "n - k" arbitrary: k)
  case 0
  then show ?case by (subst c_strlen.simps) simp
next
  case (Suc d)
  then have kn: "k < n" by simp
  with Suc.prems have nz: "blk (base + k) \<noteq> 0" by simp
  have "c_strlen blk base (k + 1) = Inr n"
    using Suc.hyps(1)[of "k + 1"] Suc.hyps(2) Suc.prems kn by simp
  then show ?case using nz Suc.prems kn by (subst c_strlen.simps) simp
qed

lemma create_second_file:
  "osfs_create env_ok sb_one_file 1 name_b mode_file = (Inr 3, sb_two_files)"
proof -
  have l: "c_strlen root_dir_block 0 0 = Inr 5"
    by (rule c_strlen_eq)
       (auto simp: root_dir_block_def put_u32_def blk_write_def name_a_def BLOCK_SIZE_def
          nth_Cons split: nat.splits)
  have h: "dir_has_name_from root_dir_block name_b 1 0 = Inr False"
    by (subst dir_has_name_from.simps, simp add: l name_b_def,
        subst dir_has_name_from.simps, simp)
  show ?thesis
    by (simp add: osfs_create_def osfs_new_inode_def osfs_get_free_inode_def
        get_free_inode_from.simps osfs_get_osfs_inode_def osfs_add_dir_entry_def Let_def
        sb_two_files_def sb_one_file_def env_ok_def mode_file_def osfs_consts root_inode_fresh_def
        file_inode_fresh_def zero_inode_def h[unfolded name_b_def] name_b_def c_strncpy_def
        fun_eq_iff
        numeral_3_eq_3[symmetric] eval_nat_numeral(2)[symmetric] del: One_nat_def)
qed

lemma sb_two_files_facts:
  "\<forall>j<OSFS_N_BLOCKS. i_block (inode_table sb_two_files 3) j = 0"
  "i_size (inode_table sb_two_files 3) = 0"
  "i_blocks (inode_table sb_two_files 3) = 0"
  "unat (block_count sb_two_files) \<le> DATA_BLOCK_COUNT"
  "block_bitmap sb_two_files 0"
  "zero_bits (block_bitmap sb_two_files) (unat (block_count sb_two_files)) = 19"
  "nr_free_blocks sb_two_files = 19"
  "inode_table sb_two_files 2 = file_inode_fresh"
  by (simp_all add: sb_two_files_def sb_one_file_def file_inode_fresh_def osfs_consts
        zero_bits_def upt_rec)

subsection \<open>The lowest free block\<close>

lemma alloc_lowest:
  assumes "unat p < unat (block_count sb)" "unat (block_count sb) \<le> BLOCK_BITMAP_BITS"
    and "\<not> block_bitmap sb (unat p)" "\<forall>j < unat p. block_bitmap sb j"
  shows "osfs_alloc_data_block sb = (Inr p, mark_used sb p)"
proof -
  have "0 < zero_bits (block_bitmap sb) (unat (block_count sb))"
    unfolding zero_bits_pos_iff using assms(1,3) by blast
  then obtain q where q: "osfs_alloc_data_block sb = (Inr q, mark_used sb q)"
    using alloc_exists assms(2) by blast
  from alloc_Inr[OF q] have "\<not> block_bitmap sb (unat q)" "\<forall>j < unat q. block_bitmap sb j"
    by simp_all
  then have "unat q = unat p" using assms(3,4) by (meson linorder_neqE_nat)
  then have "q = p" by (simp add: word_unat_eq_iff)
  then show ?thesis using q by simp
qed

subsection \<open>The walk of a tier\<close>

text \<open>
  \<^verbatim>\<open>osfs_get_block\<close> is the walk \<open>tier_resolve\<close> of the tier of the block.
\<close>

lemmas slot_unfold = data_slot_def index_slot_def slot_get.simps slot_set.simps slot_ok.simps
  not_less not_True_eq_False if_False not_not

lemma direct_data_slot:
  "b < OSFS_N_DIRECT \<Longrightarrow> osfs_get_block sb ino b create = data_slot sb ino (Ptr b) create"
  unfolding osfs_get_block_def slot_unfold by simp

lemma indirect_slots:
  "get_block_indirect sb ino i create =
     (case index_slot sb ino (Ptr OSFS_N_DIRECT) create of
        (Inl e, sb1) \<Rightarrow> (Inl e, sb1)
      | (Inr _, sb1) \<Rightarrow>
          data_slot sb1 ino (Entry (slot_get sb1 ino (Ptr OSFS_N_DIRECT)) i) create)"
  unfolding get_block_indirect_def slot_unfold Let_def
  by (simp cong: if_cong)

lemma dindirect_slots:
  "get_block_dindirect sb ino b create =
     (case index_slot sb ino (Ptr (OSFS_N_DIRECT + 1)) create of
        (Inl e, sb1) \<Rightarrow> (Inl e, sb1)
      | (Inr _, sb1) \<Rightarrow>
          let top = Entry (slot_get sb1 ino (Ptr (OSFS_N_DIRECT + 1))) (b div OSFS_ADDR_PER_BLOCK)
          in case index_slot sb1 ino top create of
               (Inl e, sb2) \<Rightarrow> (Inl e, sb2)
             | (Inr _, sb2) \<Rightarrow>
                 data_slot sb2 ino (Entry (slot_get sb2 ino top) (b mod OSFS_ADDR_PER_BLOCK)) create)"
proof -
  have x13: "(if i_block (inode_table sb ino) (OSFS_N_DIRECT + 1) = 0 then
           (if \<not> create then (Inl ENOENT, sb)
            else
              (case osfs_alloc_data_block sb of
                 (Inl e, sb1) \<Rightarrow> (Inl e, sb1)
               | (Inr p, sb1) \<Rightarrow>
                   if DATA_BLOCK_COUNT \<le> unat (i_block (inode_table (set_i_block sb1 ino (OSFS_N_DIRECT + 1) p) ino) (OSFS_N_DIRECT + 1))
                   then (Inl OutOfBounds, set_i_block sb1 ino (OSFS_N_DIRECT + 1) p)
                   else (Inr (), inc_i_blocks (memset_block (set_i_block sb1 ino (OSFS_N_DIRECT + 1) p)
                           (i_block (inode_table (set_i_block sb1 ino (OSFS_N_DIRECT + 1) p) ino) (OSFS_N_DIRECT + 1))) ino)))
         else (Inr (), sb)) = index_slot sb ino (Ptr (OSFS_N_DIRECT + 1)) create"
    unfolding slot_unfold Let_def by simp
  have mid: "(if get_entry s db k = 0 then
                     (if \<not> create then (Inl ENOENT, s)
                      else
                        (case osfs_alloc_data_block s of
                           (Inl e, sb2) \<Rightarrow> (Inl e, sb2)
                         | (Inr p, sb2) \<Rightarrow>
                             if DATA_BLOCK_COUNT \<le> unat (get_entry (set_entry sb2 db k p) db k)
                             then (Inl OutOfBounds, set_entry sb2 db k p)
                             else (Inr (), inc_i_blocks (memset_block (set_entry sb2 db k p)
                                     (get_entry (set_entry sb2 db k p) db k)) ino)))
                   else (Inr (), s)) = index_slot s ino (Entry db k) create"
    if "\<not> DATA_BLOCK_COUNT \<le> unat db" for s db k
    using that unfolding slot_unfold Let_def by simp
  have midO: "index_slot s ino (Entry db k) create = (Inl OutOfBounds, s)"
    if "DATA_BLOCK_COUNT \<le> unat db" for s db k
    using that unfolding slot_unfold by simp
  have dat: "(if DATA_BLOCK_COUNT \<le> unat ib then (Inl OutOfBounds, s)
              else if get_entry s ib k = 0 \<and> create then
                (case osfs_alloc_data_block s of
                   (Inl e, sb3) \<Rightarrow> (Inl e, sb3)
                 | (Inr p, sb3) \<Rightarrow>
                     (Inr (get_entry (inc_i_blocks (set_entry sb3 ib k p) ino) ib k),
                      inc_i_blocks (set_entry sb3 ib k p) ino))
              else (Inr (get_entry s ib k), s)) = data_slot s ino (Entry ib k) create" for s ib k
    unfolding slot_unfold Let_def by simp
  obtain r s1 where st1: "index_slot sb ino (Ptr (OSFS_N_DIRECT + 1)) create = (r, s1)"
    by (cases "index_slot sb ino (Ptr (OSFS_N_DIRECT + 1)) create")
  show ?thesis
  proof (cases r)
    case (Inl e)
    then show ?thesis unfolding get_block_dindirect_def Let_def x13 st1 by simp
  next
    case (Inr u)
    show ?thesis
    proof (cases "DATA_BLOCK_COUNT \<le> unat (i_block (inode_table s1 ino) (OSFS_N_DIRECT + 1))")
      case True
      show ?thesis unfolding get_block_dindirect_def Let_def x13 st1 Inr
        by (simp only: sum.case prod.case True if_True slot_get.simps midO[OF True])
    next
      case False
      show ?thesis unfolding get_block_dindirect_def Let_def x13 st1 Inr dat
        by (simp only: sum.case prod.case False if_False mid[OF False] slot_get.simps)
    qed
  qed
qed

lemma get_block_tier_resolve:
  "osfs_get_block sb ino b create = tier_resolve sb ino (tier_of b) create"
proof -
  consider (d) "b < OSFS_N_DIRECT"
    | (i) "\<not> b < OSFS_N_DIRECT" "b - OSFS_N_DIRECT < OSFS_ADDR_PER_BLOCK"
    | (dd) "\<not> b < OSFS_N_DIRECT" "\<not> b - OSFS_N_DIRECT < OSFS_ADDR_PER_BLOCK"
        "b - OSFS_N_DIRECT - OSFS_ADDR_PER_BLOCK < OSFS_ADDR_PER_BLOCK * OSFS_ADDR_PER_BLOCK"
    | (t) "\<not> b < OSFS_N_DIRECT" "\<not> b - OSFS_N_DIRECT < OSFS_ADDR_PER_BLOCK"
        "\<not> b - OSFS_N_DIRECT - OSFS_ADDR_PER_BLOCK < OSFS_ADDR_PER_BLOCK * OSFS_ADDR_PER_BLOCK"
    by blast
  then show ?thesis
  proof cases
    case d
    then show ?thesis by (simp add: direct_data_slot tier_of_def)
  next
    case i
    have "osfs_get_block sb ino b create = get_block_indirect sb ino (b - OSFS_N_DIRECT) create"
      using i by (simp add: osfs_get_block_def Let_def)
    then show ?thesis using i by (simp only: indirect_slots tier_of_def if_False if_True tier_resolve.simps)
  next
    case dd
    have "osfs_get_block sb ino b create =
            get_block_dindirect sb ino (b - OSFS_N_DIRECT - OSFS_ADDR_PER_BLOCK) create"
      using dd by (simp add: osfs_get_block_def Let_def)
    then show ?thesis using dd
      by (simp only: dindirect_slots tier_of_def if_False if_True tier_resolve.simps)
  next
    case t
    then show ?thesis by (simp add: osfs_get_block_def tier_of_def Let_def)
  qed
qed

section \<open>Properties\<close>

subsection \<open>Mount\<close>

text \<open>
  Claim C4.  Whenever \<^verbatim>\<open>osfs_fill_super\<close> succeeds, the root inode number is 1, the
  root directory holds no entry (its size divided by the size of an entry
  record is 0), \<^verbatim>\<open>nr_free_inodes\<close> is \<^verbatim>\<open>inode_count - 1\<close> and \<^verbatim>\<open>nr_free_blocks\<close>
  is \<^verbatim>\<open>block_count\<close>; and it does succeed when the kernel's three allocations
  do.
\<close>

theorem fresh_mount_state:
  "(vmalloc_ok env \<and> new_inode_ok env \<and> d_make_root_ok env \<longrightarrow>
      (\<exists>sb. osfs_fill_super env = Inr (sb, ROOT_INODE))) \<and>
   (\<forall>sb root. osfs_fill_super env = Inr (sb, root) \<longrightarrow>
      root = 1 \<and> i_ino (inode_table sb root) = 1 \<and>
      unat (i_size (inode_table sb root)) div DIR_ENTRY_SIZE = 0 \<and>
      nr_free_inodes sb = inode_count sb - 1 \<and>
      unat (nr_free_inodes sb) = unat (inode_count sb) - 1 \<and>
      nr_free_blocks sb = block_count sb \<and>
      unat (inode_count sb) = INODE_COUNT \<and> unat (block_count sb) = DATA_BLOCK_COUNT)"
  by (auto simp: osfs_fill_super_def osfs_get_osfs_inode_def Let_def osfs_consts zero_inode_def
      split: if_splits)

theorem fresh_mount_state_witness:
  "vmalloc_ok env_ok \<and> new_inode_ok env_ok \<and> d_make_root_ok env_ok \<and>
   osfs_fill_super env_ok = Inr (sb_fresh, 1) \<and>
   i_ino (inode_table sb_fresh 1) = 1 \<and>
   unat (i_size (inode_table sb_fresh 1)) div DIR_ENTRY_SIZE = 0 \<and>
   nr_free_inodes sb_fresh = 19 \<and> nr_free_blocks sb_fresh = 20"
proof -
  have h: "osfs_fill_super env_ok = Inr (sb_fresh, 1)" by (rule mount_fresh)
  have ok: "vmalloc_ok env_ok \<and> new_inode_ok env_ok \<and> d_make_root_ok env_ok"
    by (simp add: env_ok_def)
  from fresh_mount_state[of env_ok] h
  have "i_ino (inode_table sb_fresh 1) = 1 \<and>
        unat (i_size (inode_table sb_fresh 1)) div DIR_ENTRY_SIZE = 0 \<and>
        nr_free_inodes sb_fresh = inode_count sb_fresh - 1 \<and>
        nr_free_blocks sb_fresh = block_count sb_fresh"
    by blast
  then show ?thesis using h ok by (simp add: sb_fresh_def)
qed

subsection \<open>Free counters and bitmaps\<close>

text \<open>
  Claim C1, evaluated on the mount followed by one create.  After the
  mount the counter \<^verbatim>\<open>nr_free_inodes\<close> is 19 and the inode bitmap has 19 zero
  bits among its 20.  The create of \<^verbatim>\<open>a.txt\<close> succeeds with inode 2 and sets
  exactly one more bit, so 18 bits are zero; but the counter is 17:
  \<^verbatim>\<open>osfs_get_free_inode\<close> and \<^verbatim>\<open>osfs_new_inode\<close> each decrement it.
\<close>

theorem create_decrements_twice:
  "osfs_fill_super env_ok = Inr (sb_fresh, 1) \<and>
   nr_free_inodes sb_fresh = 19 \<and>
   zero_bits (inode_bitmap sb_fresh) (unat (inode_count sb_fresh)) = 19 \<and>
   osfs_create env_ok sb_fresh 1 name_a mode_file = (Inr 2, sb_one_file) \<and>
   inode_bitmap sb_one_file = (inode_bitmap sb_fresh)(2 := True) \<and>
   zero_bits (inode_bitmap sb_one_file) (unat (inode_count sb_one_file)) = 18 \<and>
   nr_free_inodes sb_one_file = 17"
proof -
  have "zero_bits (inode_bitmap sb_fresh) (unat (inode_count sb_fresh)) = 19"
    by (simp add: zero_bits_def sb_fresh_def upt_rec)
  moreover have "zero_bits (inode_bitmap sb_one_file) (unat (inode_count sb_one_file)) = 18"
    by (simp add: zero_bits_def sb_one_file_def upt_rec)
  moreover have "inode_bitmap sb_one_file = (inode_bitmap sb_fresh)(2 := True)"
    by (simp add: sb_one_file_def sb_fresh_def)
  moreover have "nr_free_inodes sb_fresh = 19" "nr_free_inodes sb_one_file = 17"
    by (simp_all add: sb_one_file_def sb_fresh_def)
  ultimately show ?thesis using mount_fresh create_one_file by simp
qed

subsection \<open>Block number 0\<close>

text \<open>
  Claim C3, evaluated on the same run.  The first data block the allocator
  hands out after a mount is block 0: the create of \<^verbatim>\<open>a.txt\<close> gives it to the
  root directory, whose direct pointer 0 then holds the value 0 although the
  directory owns one block and bit 0 of the block bitmap is set.  Resolving
  logical block 0 of the root inode for writing on the fresh mount likewise
  allocates block 0 and returns 0, the value that \<^verbatim>\<open>osfs_write\<close> rejects and
  \<^verbatim>\<open>osfs_read\<close> takes for a hole.
\<close>

theorem block_zero_is_allocated:
  "fst (osfs_alloc_data_block sb_fresh) = Inr 0 \<and>
   osfs_create env_ok sb_fresh 1 name_a mode_file = (Inr 2, sb_one_file) \<and>
   i_block (inode_table sb_one_file 1) 0 = 0 \<and>
   i_blocks (inode_table sb_one_file 1) = 1 \<and>
   block_bitmap sb_one_file 0 \<and>
   fst (osfs_get_block sb_fresh 1 0 True) = Inr 0 \<and>
   block_bitmap (snd (osfs_get_block sb_fresh 1 0 True)) 0 \<and>
   fst (osfs_write env_ok sb_fresh 1 [0x68, 0x69] 0) = Inl EIO"
proof -
  have a: "osfs_alloc_data_block sb_fresh = (Inr 0, mark_used sb_fresh 0)"
    by (simp add: osfs_alloc_data_block_def alloc_data_block_from.simps sb_fresh_def
        osfs_consts mark_used_def)
  have g: "osfs_get_block sb_fresh 1 0 True =
            (Inr 0, inc_i_blocks (set_i_block (mark_used sb_fresh 0) 1 0 0) 1)"
    by (simp add: osfs_get_block_def a OSFS_N_DIRECT_def Let_def)
       (simp add: sb_fresh_def root_inode_fresh_def)
  have w: "fst (osfs_write env_ok sb_fresh 1 [0x68, 0x69] 0) = Inl EIO"
    by (simp add: osfs_write_def write_loop.simps g Let_def del: One_nat_def)
  have "i_block (inode_table sb_one_file 1) 0 = 0 \<and> i_blocks (inode_table sb_one_file 1) = 1 \<and>
        block_bitmap sb_one_file 0"
    by (simp add: sb_one_file_def root_inode_fresh_def)
  then show ?thesis using a g w create_one_file by simp
qed

subsection \<open>Holes in the direct range\<close>

text \<open>
  Claim C6, evaluated in the state after the create: direct pointer 0 of the
  new file (inode 2) is 0, and resolving logical block 0 without \<open>create\<close>
  returns success with block number 0, not \<^verbatim>\<open>ENOENT\<close>.  The header comment
  of \<^verbatim>\<open>osfs_get_block\<close> says that without \<open>create\<close> a block that does not
  exist is an error, and for a missing index block the function does return
  \<^verbatim>\<open>ENOENT\<close>.
\<close>

theorem direct_hole_not_enoent:
  "osfs_create env_ok sb_fresh 1 name_a mode_file = (Inr 2, sb_one_file) \<and>
   0 < OSFS_N_DIRECT \<and> i_block (inode_table sb_one_file 2) 0 = 0 \<and>
   osfs_get_block sb_one_file 2 0 False = (Inr 0, sb_one_file) \<and>
   fst (osfs_get_block sb_one_file 2 0 False) \<noteq> Inl ENOENT"
proof -
  have "osfs_get_block sb_one_file 2 0 False = (Inr 0, sb_one_file)"
    by (simp add: osfs_get_block_def OSFS_N_DIRECT_def sb_one_file_def file_inode_fresh_def)
  moreover have "i_block (inode_table sb_one_file 2) 0 = 0"
    by (simp add: sb_one_file_def file_inode_fresh_def)
  ultimately show ?thesis using create_one_file by (simp add: OSFS_N_DIRECT_def)
qed

subsection \<open>The terminator of a stored file name\<close>

text \<open>
  Claim C10, evaluated on a name of 255 bytes.  The name passes the length
  check of \<^verbatim>\<open>osfs_create\<close>, the create succeeds, and the directory entry has
  no NUL among the 255 bytes of its \<^verbatim>\<open>filename\<close> field: the string stored
  there has length 255, and its terminator is the byte at index 255, one past
  the end of the field.
\<close>

theorem terminator_outside_filename:
  "length name_255 \<le> MAX_FILENAME_LEN \<and>
   fst (osfs_create env_ok sb_fresh 1 name_255 mode_file) = Inr 2 \<and>
   blk_read (data_blocks (snd (osfs_create env_ok sb_fresh 1 name_255 mode_file)) 0)
     0 MAX_FILENAME_LEN = name_255 \<and>
   c_strlen (data_blocks (snd (osfs_create env_ok sb_fresh 1 name_255 mode_file)) 0) 0 0
     = Inr MAX_FILENAME_LEN \<and>
   data_blocks (snd (osfs_create env_ok sb_fresh 1 name_255 mode_file)) 0 MAX_FILENAME_LEN = 0"
proof -
  define blk where "blk = put_u32 ((blk_write zero_block 0 name_255)(255 := 0)) 64 2"
  have c: "fst (osfs_create env_ok sb_fresh 1 name_255 mode_file) = Inr 2 \<and>
           data_blocks (snd (osfs_create env_ok sb_fresh 1 name_255 mode_file)) 0 = blk"
    by (simp add: sb_fresh_def env_ok_def name_255_def mode_file_def osfs_consts create_defs
        root_inode_fresh_def zero_inode_def takeWhile_replicate blk_def)
  have b: "\<forall>j<255. blk j = 0x61" "blk 255 = 0"
    by (simp_all add: blk_def blk_write_def put_u32_def name_255_def)
  have s: "c_strlen blk 0 0 = Inr 255"
    by (rule c_strlen_eq) (simp_all add: b BLOCK_SIZE_def)
  have r: "blk_read blk 0 255 = name_255"
    by (rule nth_equalityI) (simp_all add: blk_read_def name_255_def b)
  show ?thesis using c s r b(2) by (simp add: MAX_FILENAME_LEN_def name_255_def)
qed

subsection \<open>Tier selection\<close>

text \<open>
  Claim C5.  Without \<open>create\<close>, \<^verbatim>\<open>osfs_get_block\<close> leaves the state as it is and
  returns what the slot of the block's tier holds, the tier being chosen by
  range: a direct pointer for \<open>b < N_DIRECT\<close>; entry \<open>b - N_DIRECT\<close> of the
  indirect block when that index is below \<^verbatim>\<open>ADDR_PER_BLOCK\<close>; the entry at outer
  index \<open>(b - N_DIRECT - ADDR_PER_BLOCK) div ADDR_PER_BLOCK\<close> and inner index
  \<open>(b - N_DIRECT - ADDR_PER_BLOCK) mod ADDR_PER_BLOCK\<close> of the double-indirect
  block when \<open>b - N_DIRECT - ADDR_PER_BLOCK\<close> is below the square of
  \<^verbatim>\<open>ADDR_PER_BLOCK\<close>.  Every \<open>b\<close> at or beyond
  \<open>N_DIRECT + ADDR_PER_BLOCK + ADDR_PER_BLOCK\<^sup>2\<close>, and no other, gets \<^verbatim>\<open>EFBIG\<close>,
  with or without \<open>create\<close>.  With \<open>create\<close>, a block that is already mapped
  resolves through the same slot to the same number, and nothing changes.
  In every case, with or without \<open>create\<close>, the call is the walk
  \<open>tier_resolve\<close> of that tier: a missing index block on the path is not
  found without \<open>create\<close>, and with \<open>create\<close> it is allocated, stored in its
  slot and zero-filled; a data block whose slot is 0 is, with \<open>create\<close>,
  allocated and stored in the slot of the tier; each allocation increments the
  usage counter of the inode, and a failed allocation is returned as it is.
\<close>

theorem tier_selection:
  "osfs_get_block sb ino b False = (tier_lookup sb ino (tier_of b), sb) \<and>
   (tier_of b = TooBig \<longleftrightarrow> OSFS_N_DIRECT + OSFS_ADDR_PER_BLOCK + OSFS_ADDR_PER_BLOCK * OSFS_ADDR_PER_BLOCK \<le> b) \<and>
   (tier_of b = TooBig \<longrightarrow> osfs_get_block sb ino b create = (Inl EFBIG, sb)) \<and>
   (\<forall>p. tier_lookup sb ino (tier_of b) = Inr p \<and> p \<noteq> 0 \<longrightarrow>
        osfs_get_block sb ino b True = (Inr p, sb)) \<and>
   osfs_get_block sb ino b create = tier_resolve sb ino (tier_of b) create"
proof (intro conjI allI impI)
  show r: "osfs_get_block sb ino b False = (tier_lookup sb ino (tier_of b), sb)"
    by (simp add: osfs_get_block_def tier_of_def get_block_indirect_def get_block_dindirect_def Let_def)
  show "tier_of b = TooBig \<longleftrightarrow> OSFS_N_DIRECT + OSFS_ADDR_PER_BLOCK + OSFS_ADDR_PER_BLOCK * OSFS_ADDR_PER_BLOCK \<le> b"
    by (auto simp: tier_of_def)
  show "osfs_get_block sb ino b create = (Inl EFBIG, sb)" if "tier_of b = TooBig"
    using that by (simp add: osfs_get_block_def tier_of_def Let_def split: if_splits)
  show "osfs_get_block sb ino b True = (Inr p, sb)" if "tier_lookup sb ino (tier_of b) = Inr p \<and> p \<noteq> 0" for p
    using that
    by (auto simp: osfs_get_block_def tier_of_def get_block_indirect_def get_block_dindirect_def Let_def split: if_splits)
  show "osfs_get_block sb ino b create = tier_resolve sb ino (tier_of b) create"
    by (rule get_block_tier_resolve)
qed

theorem tier_selection_witness:
  "tier_of 1049612 = TooBig \<and>
   osfs_get_block sb_one_block 2 1049612 True = (Inl EFBIG, sb_one_block) \<and>
   tier_of 0 = Direct 0 \<and>
   tier_lookup sb_one_block 2 (tier_of 0) = Inr 1 \<and> (1 :: u32) \<noteq> 0 \<and>
   osfs_get_block sb_one_block 2 0 False = (Inr 1, sb_one_block) \<and>
   osfs_get_block sb_one_block 2 0 True = (Inr 1, sb_one_block) \<and>
   tier_of 12 = Indirect 0 \<and>
   osfs_get_block sb_one_file 2 12 True =
     (Inr 2,
      inc_i_blocks (set_entry (mark_used
        (inc_i_blocks (memset_block (set_i_block (mark_used sb_one_file 1) 2 12 1) 1) 2) 2)
        1 0 2) 2)"
proof -
  have t: "tier_of 1049612 = TooBig" by (simp add: tier_of_def osfs_consts)
  have d: "tier_of 0 = Direct 0" by (simp add: tier_of_def osfs_consts)
  have i: "tier_of 12 = Indirect 0" by (simp add: tier_of_def osfs_consts)
  have l: "tier_lookup sb_one_block 2 (tier_of 0) = Inr 1 \<and> (1 :: u32) \<noteq> 0"
    by (simp add: d sb_one_block_def)
  from tier_selection[of sb_one_block 2 1049612 True] t
  have "osfs_get_block sb_one_block 2 1049612 True = (Inl EFBIG, sb_one_block)" by blast
  moreover from tier_selection[of sb_one_block 2 0 True] l
  have "osfs_get_block sb_one_block 2 0 False = (Inr 1, sb_one_block)"
       "osfs_get_block sb_one_block 2 0 True = (Inr 1, sb_one_block)" by auto
  moreover have "osfs_get_block sb_one_file 2 12 True =
     (Inr 2,
      inc_i_blocks (set_entry (mark_used
        (inc_i_blocks (memset_block (set_i_block (mark_used sb_one_file 1) 2 12 1) 1) 2) 2)
        1 0 2) 2)"
  proof -
    let ?s3 = "inc_i_blocks (memset_block (set_i_block (mark_used sb_one_file 1) 2 12 1) 1) 2"
    have a1: "osfs_alloc_data_block sb_one_file = (Inr 1, mark_used sb_one_file 1)"
      by (rule alloc_lowest) (simp_all add: sb_one_file_def osfs_consts)
    have bm: "block_bitmap ?s3 = (\<lambda>j. j = 0 \<or> j = 1)" "block_count ?s3 = 20"
      by (auto simp: sb_one_file_def mark_used_def fun_eq_iff)
    have a2: "osfs_alloc_data_block ?s3 = (Inr 2, mark_used ?s3 2)"
    proof (rule alloc_lowest)
      show "\<forall>j < unat (2 :: u32). block_bitmap ?s3 j" unfolding bm by auto
    qed (simp_all add: sb_one_file_def osfs_consts)
    have s12: "i_block (inode_table sb_one_file 2) 12 = 0"
      by (simp add: sb_one_file_def file_inode_fresh_def)
    have ix: "index_slot sb_one_file 2 (Ptr OSFS_N_DIRECT) True = (Inr (), ?s3)"
      by (simp add: index_slot_def OSFS_N_DIRECT_def s12 a1 DATA_BLOCK_COUNT_def)
    have e0: "get_entry ?s3 1 0 = 0" by (simp add: get_entry_def get_u32_zero)
    have "get_entry (inc_i_blocks (set_entry (mark_used ?s3 2) 1 0 2) 2) 1 0 = 2"
      by (simp add: get_entry_def get_put_u32_same OSFS_ADDR_PER_BLOCK_def)
    then have dt: "data_slot ?s3 2 (Entry 1 0) True =
        (Inr 2, inc_i_blocks (set_entry (mark_used ?s3 2) 1 0 2) 2)"
      by (simp add: data_slot_def e0 a2 DATA_BLOCK_COUNT_def)
    have "tier_resolve sb_one_file 2 (Indirect 0) True =
        (Inr 2, inc_i_blocks (set_entry (mark_used ?s3 2) 1 0 2) 2)"
      unfolding tier_resolve.simps ix by (simp add: dt OSFS_N_DIRECT_def)
    with tier_selection[of sb_one_file 2 12 True] i show ?thesis by simp
  qed
  ultimately show ?thesis using t d i l by simp
qed

subsection \<open>Freeing the blocks of an inode\<close>












subsection \<open>Create with a name that exists\<close>

text \<open>
  Claim C7, evaluated on a second create of \<^verbatim>\<open>a.txt\<close> in the root directory.
  The call returns \<^verbatim>\<open>EEXIST\<close>, but inode 3, free before the call, is marked
  used after it: the inode bitmap has 17 zero bits instead of 18, and the
  counter \<^verbatim>\<open>nr_free_inodes\<close> has gone from 17 to 15.
\<close>

theorem duplicate_create_leaks_inode:
  "osfs_create env_ok sb_fresh 1 name_a mode_file = (Inr 2, sb_one_file) \<and>
   fst (osfs_create env_ok sb_one_file 1 name_a mode_file) = Inl EEXIST \<and>
   \<not> inode_bitmap sb_one_file 3 \<and>
   inode_bitmap (snd (osfs_create env_ok sb_one_file 1 name_a mode_file)) 3 \<and>
   zero_bits (inode_bitmap sb_one_file) (unat (inode_count sb_one_file)) = 18 \<and>
   zero_bits (inode_bitmap (snd (osfs_create env_ok sb_one_file 1 name_a mode_file)))
     (unat (inode_count sb_one_file)) = 17 \<and>
   nr_free_inodes sb_one_file = 17 \<and>
   nr_free_inodes (snd (osfs_create env_ok sb_one_file 1 name_a mode_file)) = 15"
proof -
  have l: "c_strlen root_dir_block 0 0 = Inr 5"
    by (rule c_strlen_eq)
       (auto simp: root_dir_block_def put_u32_def blk_write_def name_a_def BLOCK_SIZE_def
          nth_Cons split: nat.splits)
  have c: "c_strncmp_eq root_dir_block 0 name_a 0"
    by (simp add: c_strncmp_eq.simps root_dir_block_def put_u32_def blk_write_def name_a_def)
  have length_name_a: "length name_a = 5" by (simp add: name_a_def)
  have h: "dir_has_name_from root_dir_block name_a 1 0 = Inr True"
    by (subst dir_has_name_from.simps) (simp add: l c length_name_a)
  have r: "osfs_create env_ok sb_one_file 1 name_a mode_file =
             (Inl EEXIST,
              sb_one_file\<lparr>inode_bitmap := (inode_bitmap sb_one_file)(3 := True),
                nr_free_inodes := 15,
                inode_table := (inode_table sb_one_file)
                  (3 := file_inode_fresh\<lparr>i_ino := 3\<rparr>)\<rparr>)"
    by (simp add: osfs_create_def osfs_new_inode_def osfs_get_free_inode_def
        get_free_inode_from.simps osfs_get_osfs_inode_def osfs_add_dir_entry_def Let_def
        sb_one_file_def env_ok_def mode_file_def osfs_consts root_inode_fresh_def
        file_inode_fresh_def zero_inode_def h[unfolded name_a_def] name_a_def
        numeral_3_eq_3[symmetric] eval_nat_numeral(2)[symmetric] del: One_nat_def)
  have z1: "zero_bits (inode_bitmap sb_one_file) (unat (inode_count sb_one_file)) = 18"
    by (simp add: zero_bits_def sb_one_file_def upt_rec)
  have z2: "zero_bits ((inode_bitmap sb_one_file)(3 := True)) (unat (inode_count sb_one_file)) = 17"
    by (simp add: zero_bits_def sb_one_file_def upt_rec)
  have "\<not> inode_bitmap sb_one_file 3" "nr_free_inodes sb_one_file = 17"
    by (simp_all add: sb_one_file_def)
  then show ?thesis using create_one_file z1 z2 by (simp add: r del: One_nat_def)
qed

subsection \<open>Writing a file in order\<close>

text \<open>
  The facts below follow a file through a write that starts at offset 0 of a
  file without blocks and proceeds block by block: \<open>seq_file\<close> is kept by
  every step of the loop of \<^verbatim>\<open>osfs_write\<close>, and \<open>holds_bytes\<close> records what the
  mapped blocks contain.  With at most \<^verbatim>\<open>DATA_BLOCK_COUNT\<close> blocks the
  double-indirect range is never reached.
\<close>

lemma seq_file_k_small: "seq_file sb ino k Z F \<Longrightarrow> k \<le> 20"
  by (auto simp: seq_file_def blocks_used_def DATA_BLOCK_COUNT_def split: if_splits)

lemma unat_inc_small: "unat (x :: u32) \<le> 21 \<Longrightarrow> unat (x + 1) = unat x + 1"
  by (simp add: unat_word_ariths)

lemma seq_lookup:
  assumes inv: "seq_file sb ino k Z F" and j: "j < k"
  shows "osfs_get_block sb ino j False = (Inr (file_block sb ino j), sb)"
proof (cases "j < OSFS_N_DIRECT")
  case True
  then show ?thesis by (simp add: osfs_get_block_def file_block_def)
next
  case False
  then have k: "OSFS_N_DIRECT < k" using j by simp
  have "j < 20" using seq_file_k_small[OF inv] j by simp
  then have r: "j - OSFS_N_DIRECT < OSFS_ADDR_PER_BLOCK" by (simp add: osfs_consts)
  have ib: "blk_ok sb (i_block (inode_table sb ino) OSFS_N_DIRECT)"
    and bc: "unat (block_count sb) \<le> DATA_BLOCK_COUNT"
    using inv k by (auto simp: seq_file_def)
  then show ?thesis using False r
    by (simp add: osfs_get_block_def file_block_def get_block_indirect_def Let_def blk_ok_def)
qed

text \<open>The state after the data of a block has been replaced.\<close>

lemma alloc_facts:
  assumes "osfs_alloc_data_block sb = (Inr p, sb1)" and "block_bitmap sb 0"
  shows "sb1 = mark_used sb p" "p \<noteq> 0" "unat p < unat (block_count sb)"
    "\<not> block_bitmap sb (unat p)"
    "zero_bits (block_bitmap sb1) (unat (block_count sb)) + 1
       = zero_bits (block_bitmap sb) (unat (block_count sb))"
proof -
  from alloc_Inr[OF assms(1)] show a: "sb1 = mark_used sb p" "unat p < unat (block_count sb)"
    "\<not> block_bitmap sb (unat p)" by simp_all
  then show "p \<noteq> 0" using assms(2) by auto
  have "0 < zero_bits (block_bitmap sb) (unat (block_count sb))"
    using a(2,3) by (auto simp: zero_bits_pos_iff)
  then show "zero_bits (block_bitmap sb1) (unat (block_count sb)) + 1
       = zero_bits (block_bitmap sb) (unat (block_count sb))"
    using zero_bits_mark_used[OF a(2,3)] a(1) by simp
qed

lemma step_direct:
  assumes inv: "seq_file sb ino k Z F" and k: "k < OSFS_N_DIRECT"
    and g: "osfs_get_block sb ino k True = (Inr p, sb1)"
  shows "p \<noteq> 0" "unat p < DATA_BLOCK_COUNT" "\<not> block_bitmap sb (unat p)"
    "sb1 = inc_i_blocks (set_i_block (mark_used sb p) ino k p) ino"
proof -
  have z: "i_block (inode_table sb ino) k = 0" using inv k by (auto simp: seq_file_def)
  from g z k obtain sa where a: "osfs_alloc_data_block sb = (Inr p, sa)"
    and s: "sb1 = inc_i_blocks (set_i_block sa ino k p) ino"
    by (auto simp: osfs_get_block_def Let_def split: prod.splits sum.splits)
  have b0: "block_bitmap sb 0" and bc: "unat (block_count sb) \<le> DATA_BLOCK_COUNT"
    using inv by (auto simp: seq_file_def)
  from alloc_facts[OF a b0] s bc
  show "p \<noteq> 0" "unat p < DATA_BLOCK_COUNT" "\<not> block_bitmap sb (unat p)"
    "sb1 = inc_i_blocks (set_i_block (mark_used sb p) ino k p) ino"
    by simp_all
qed

lemma blocks_used_Suc:
  "blocks_used (Suc k) = blocks_used k + (if k = OSFS_N_DIRECT then 2 else 1)"
  by (auto simp: blocks_used_def)

lemma of_nat_Suc_word: "(of_nat (Suc n) :: u32) = of_nat n + 1" by simp

lemma seq_step_direct:
  assumes inv: "seq_file sb ino k Z F" and k: "k < OSFS_N_DIRECT"
    and g: "osfs_get_block sb ino k True = (Inr p, sb1)"
  shows "seq_file (sb1\<lparr>data_blocks := (data_blocks sb1)(unat p := blk)\<rparr>) ino (Suc k) Z F"
    and "file_block (sb1\<lparr>data_blocks := (data_blocks sb1)(unat p := blk)\<rparr>) ino k = p"
    and "\<forall>j<k. file_block (sb1\<lparr>data_blocks := (data_blocks sb1)(unat p := blk)\<rparr>) ino j
               = file_block sb ino j \<and> file_block sb ino j \<noteq> p"
    and "\<forall>q. q \<noteq> unat p \<longrightarrow> data_blocks sb1 q = data_blocks sb q"
proof -
  let ?n = "sb1\<lparr>data_blocks := (data_blocks sb1)(unat p := blk)\<rparr>"
  note s = step_direct[OF inv k g]
  have p_lt: "unat p < unat (block_count sb)"
    using g inv k by (auto simp: osfs_get_block_def Let_def seq_file_def
        split: prod.splits sum.splits dest: alloc_Inr)
  have zb: "zero_bits (block_bitmap (mark_used sb p)) (unat (block_count sb)) + 1
              = zero_bits (block_bitmap sb) (unat (block_count sb))"
    using zero_bits_mark_used[OF p_lt s(3)] p_lt s(3) zero_bits_pos_iff[of "block_bitmap sb" "unat (block_count sb)"]
    by (metis Suc_eq_plus1 Suc_pred')
  have bu: "blocks_used (Suc k) = blocks_used k + 1" "blocks_used k = k"
    using k by (auto simp: blocks_used_def)
  have fb: "file_block ?n ino j = (if j = k then p else file_block sb ino j)" if "j \<le> k" for j
    using that k by (simp add: s(4) file_block_def)
  have old: "blk_ok sb (file_block sb ino j)" if "j < k" for j
    using inv that by (simp add: seq_file_def)
  have mono: "blk_ok ?n q" if "blk_ok sb q" for q
    using that by (simp add: blk_ok_def s(4))
  have ib: "unat (i_blocks (inode_table sb ino)) = k" using inv bu by (simp add: seq_file_def)
  have k20: "k \<le> 20" using seq_file_k_small[OF inv] .
  show "seq_file ?n ino (Suc k) Z F"
    unfolding seq_file_def
  proof (intro conjI allI impI)
    show "unat (block_count ?n) \<le> DATA_BLOCK_COUNT" using inv by (simp add: s(4) seq_file_def)
    show "Z \<le> DATA_BLOCK_COUNT" using inv by (simp add: seq_file_def)
    show "block_bitmap ?n 0" using inv by (simp add: s(4) seq_file_def)
    show "zero_bits (block_bitmap ?n) (unat (block_count ?n)) + blocks_used (Suc k) = Z"
      using inv zb bu by (simp add: s(4) seq_file_def)
    show "nr_free_blocks ?n + of_nat (blocks_used (Suc k)) = F"
    proof -
      have "nr_free_blocks sb + of_nat (blocks_used k) = F" using inv by (simp add: seq_file_def)
      moreover have "nr_free_blocks ?n = nr_free_blocks sb - 1" by (simp add: s(4))
      moreover have "(of_nat (blocks_used (Suc k)) :: u32) = of_nat (blocks_used k) + 1"
        by (simp only: bu(1) of_nat_add of_nat_1)
      ultimately show ?thesis by simp
    qed
    show "unat (i_blocks (inode_table ?n ino)) = blocks_used (Suc k)"
      using ib k20 bu by (simp add: s(4) unat_inc_small)
    show "blk_ok ?n (file_block ?n ino j)" if "j < Suc k" for j
    proof (cases "j = k")
      case True
      then show ?thesis using fb[of j] s(1) p_lt by (simp add: blk_ok_def s(4))
    next
      case False
      then show ?thesis using fb[of j] that mono[OF old[of j]] by simp
    qed
    show "i_block (inode_table ?n ino) j = 0" if "Suc k \<le> j \<and> j < OSFS_N_DIRECT" for j
      using inv that by (simp add: s(4) seq_file_def)
    show "i_block (inode_table ?n ino) (OSFS_N_DIRECT + 1) = 0"
      using inv k by (simp add: s(4) seq_file_def)
    show "i_block (inode_table ?n ino) OSFS_N_DIRECT = 0"
      using inv k by (simp add: s(4) seq_file_def)
    show "blk_ok ?n (i_block (inode_table ?n ino) OSFS_N_DIRECT)" if "OSFS_N_DIRECT < Suc k"
      using that k by simp
    show "file_block ?n ino j \<noteq> i_block (inode_table ?n ino) OSFS_N_DIRECT"
      if "OSFS_N_DIRECT < Suc k" for j
      using that k by simp
    show "get_entry ?n (i_block (inode_table ?n ino) OSFS_N_DIRECT) i = 0"
      if "OSFS_N_DIRECT < Suc k" for i
      using that k by simp
  qed
  show "file_block ?n ino k = p" using fb[of k] by simp
  show "\<forall>j<k. file_block ?n ino j = file_block sb ino j \<and> file_block sb ino j \<noteq> p"
  proof (intro allI impI)
    fix j assume j: "j < k"
    have "file_block sb ino j \<noteq> p" using old[OF j] s(3) by (auto simp: blk_ok_def)
    then show "file_block ?n ino j = file_block sb ino j \<and> file_block sb ino j \<noteq> p"
      using fb[of j] j by simp
  qed
  show "\<forall>q. q \<noteq> unat p \<longrightarrow> data_blocks sb1 q = data_blocks sb q"
    by (simp add: s(4))
qed

lemma step_indirect_old:
  assumes inv: "seq_file sb ino k Z F" and k: "OSFS_N_DIRECT < k"
    and g: "osfs_get_block sb ino k True = (Inr p, sb1)"
  shows "p \<noteq> 0" "unat p < unat (block_count sb)" "\<not> block_bitmap sb (unat p)"
    "sb1 = inc_i_blocks (set_entry (mark_used sb p)
             (i_block (inode_table sb ino) OSFS_N_DIRECT) (k - OSFS_N_DIRECT) p) ino"
proof -
  let ?ib = "i_block (inode_table sb ino) OSFS_N_DIRECT"
  have k20: "k \<le> 20" using seq_file_k_small[OF inv] .
  then have r: "k - OSFS_N_DIRECT < OSFS_ADDR_PER_BLOCK" "\<not> k < OSFS_N_DIRECT"
    using k by (simp_all add: osfs_consts)
  have ib: "blk_ok sb ?ib" and bc: "unat (block_count sb) \<le> DATA_BLOCK_COUNT"
    and b0: "block_bitmap sb 0"
    and e: "get_entry sb ?ib (k - OSFS_N_DIRECT) = 0"
    using inv k r by (auto simp: seq_file_def)
  have ibs: "?ib \<noteq> 0" "\<not> DATA_BLOCK_COUNT \<le> unat ?ib" using ib bc by (auto simp: blk_ok_def)
  from g r ibs e obtain sa where a: "osfs_alloc_data_block sb = (Inr p, sa)"
    and s: "sb1 = inc_i_blocks (set_entry sa ?ib (k - OSFS_N_DIRECT) p) ino"
    by (auto simp: osfs_get_block_def get_block_indirect_def Let_def
        split: prod.splits sum.splits if_splits)
  from alloc_facts[OF a b0] s
  show "p \<noteq> 0" "unat p < unat (block_count sb)" "\<not> block_bitmap sb (unat p)"
    "sb1 = inc_i_blocks (set_entry (mark_used sb p) ?ib (k - OSFS_N_DIRECT) p) ino"
    by simp_all
qed

lemma seq_step_indirect_old:
  assumes inv: "seq_file sb ino k Z F" and k: "OSFS_N_DIRECT < k"
    and g: "osfs_get_block sb ino k True = (Inr p, sb1)"
  shows "seq_file (sb1\<lparr>data_blocks := (data_blocks sb1)(unat p := blk)\<rparr>) ino (Suc k) Z F"
    and "file_block (sb1\<lparr>data_blocks := (data_blocks sb1)(unat p := blk)\<rparr>) ino k = p"
    and "\<forall>j<k. file_block (sb1\<lparr>data_blocks := (data_blocks sb1)(unat p := blk)\<rparr>) ino j
               = file_block sb ino j \<and> file_block sb ino j \<noteq> p"
    and "\<forall>q. q \<noteq> unat p \<and> q \<noteq> unat (i_block (inode_table sb ino) OSFS_N_DIRECT)
             \<longrightarrow> data_blocks sb1 q = data_blocks sb q"
proof -
  let ?n = "sb1\<lparr>data_blocks := (data_blocks sb1)(unat p := blk)\<rparr>"
  let ?ib = "i_block (inode_table sb ino) OSFS_N_DIRECT"
  note s = step_indirect_old[OF inv k g]
  have ib: "blk_ok sb ?ib" using inv k by (auto simp: seq_file_def)
  have pib: "p \<noteq> ?ib" "unat p \<noteq> unat ?ib" using ib s(3) by (auto simp: blk_ok_def)
  have zb: "zero_bits (block_bitmap (mark_used sb p)) (unat (block_count sb)) + 1
              = zero_bits (block_bitmap sb) (unat (block_count sb))"
    using zero_bits_mark_used[OF s(2,3)] s(2,3)
      zero_bits_pos_iff[of "block_bitmap sb" "unat (block_count sb)"]
    by (metis Suc_eq_plus1 Suc_pred')
  have bu: "blocks_used (Suc k) = blocks_used k + 1" "blocks_used k = k + 1"
    using k by (auto simp: blocks_used_def)
  have ge: "get_entry ?n ?ib i = (if i = k - OSFS_N_DIRECT then p else get_entry sb ?ib i)" for i
    using pib by (auto simp: s(4) get_entry_def get_put_u32)
  have slot: "i_block (inode_table sb1 ino) j = i_block (inode_table sb ino) j" for j
    by (simp add: s(4))
  have fb: "file_block ?n ino j = (if j = k then p else file_block sb ino j)" if "j \<le> k" for j
    using that k by (auto simp: file_block_def slot ge)
  have old: "blk_ok sb (file_block sb ino j)" if "j < k" for j
    using inv that by (simp add: seq_file_def)
  have mono: "blk_ok ?n q" if "blk_ok sb q" for q
    using that by (simp add: blk_ok_def s(4))
  have ibk: "unat (i_blocks (inode_table sb ino)) = k + 1" using inv bu by (simp add: seq_file_def)
  have k20: "k \<le> 20" using seq_file_k_small[OF inv] .
  show "seq_file ?n ino (Suc k) Z F"
    unfolding seq_file_def
  proof (intro conjI allI impI)
    show "unat (block_count ?n) \<le> DATA_BLOCK_COUNT" using inv by (simp add: s(4) seq_file_def)
    show "Z \<le> DATA_BLOCK_COUNT" using inv by (simp add: seq_file_def)
    show "block_bitmap ?n 0" using inv by (simp add: s(4) seq_file_def)
    show "zero_bits (block_bitmap ?n) (unat (block_count ?n)) + blocks_used (Suc k) = Z"
      using inv zb bu by (simp add: s(4) seq_file_def)
    show "nr_free_blocks ?n + of_nat (blocks_used (Suc k)) = F"
    proof -
      have "nr_free_blocks sb + of_nat (blocks_used k) = F" using inv by (simp add: seq_file_def)
      moreover have "nr_free_blocks ?n = nr_free_blocks sb - 1" by (simp add: s(4))
      moreover have "(of_nat (blocks_used (Suc k)) :: u32) = of_nat (blocks_used k) + 1"
        by (simp only: bu(1) of_nat_add of_nat_1)
      ultimately show ?thesis by simp
    qed
    show "unat (i_blocks (inode_table ?n ino)) = blocks_used (Suc k)"
      using ibk k20 bu by (simp add: s(4) unat_inc_small)
    show "blk_ok ?n (file_block ?n ino j)" if "j < Suc k" for j
    proof (cases "j = k")
      case True
      then show ?thesis using fb[of j] s(1,2) by (simp add: blk_ok_def s(4))
    next
      case False
      then show ?thesis using fb[of j] that mono[OF old[of j]] by simp
    qed
    show "i_block (inode_table ?n ino) j = 0" if "Suc k \<le> j \<and> j < OSFS_N_DIRECT" for j
      using that k by simp
    show "i_block (inode_table ?n ino) (OSFS_N_DIRECT + 1) = 0"
      using inv by (simp add: slot seq_file_def)
    show "i_block (inode_table ?n ino) OSFS_N_DIRECT = 0" if "Suc k \<le> OSFS_N_DIRECT"
      using that k by simp
    show "blk_ok ?n (i_block (inode_table ?n ino) OSFS_N_DIRECT)"
      using mono[OF ib] by (simp add: slot)
    show "file_block ?n ino j \<noteq> i_block (inode_table ?n ino) OSFS_N_DIRECT"
      if "j < Suc k" for j
    proof (cases "j = k")
      case True
      then show ?thesis using fb[of j] pib by (simp add: slot)
    next
      case False
      then have "j < k" using that by simp
      then show ?thesis using fb[of j] inv k by (simp add: slot seq_file_def)
    qed
    show "get_entry ?n (i_block (inode_table ?n ino) OSFS_N_DIRECT) i = 0"
      if "Suc k - OSFS_N_DIRECT \<le> i \<and> i < OSFS_ADDR_PER_BLOCK" for i
      using that inv k by (auto simp: slot ge seq_file_def)
  qed
  show "file_block ?n ino k = p" using fb[of k] by simp
  show "\<forall>j<k. file_block ?n ino j = file_block sb ino j \<and> file_block sb ino j \<noteq> p"
  proof (intro allI impI)
    fix j assume j: "j < k"
    have "file_block sb ino j \<noteq> p" using old[OF j] s(3) by (auto simp: blk_ok_def)
    then show "file_block ?n ino j = file_block sb ino j \<and> file_block sb ino j \<noteq> p"
      using fb[of j] j by simp
  qed
  show "\<forall>q. q \<noteq> unat p \<and> q \<noteq> unat ?ib \<longrightarrow> data_blocks sb1 q = data_blocks sb q"
    by (simp add: s(4))
qed

lemma step_indirect_new:
  assumes inv: "seq_file sb ino k Z F" and k: "k = OSFS_N_DIRECT"
    and g: "osfs_get_block sb ino k True = (Inr p, sb1)"
  shows "\<exists>ib. ib \<noteq> 0 \<and> unat ib < unat (block_count sb) \<and> \<not> block_bitmap sb (unat ib) \<and>
           p \<noteq> 0 \<and> unat p < unat (block_count sb) \<and> \<not> block_bitmap sb (unat p) \<and> p \<noteq> ib \<and>
           zero_bits (block_bitmap sb1) (unat (block_count sb)) + 2
             = zero_bits (block_bitmap sb) (unat (block_count sb)) \<and>
           sb1 = inc_i_blocks (set_entry (mark_used
                   (inc_i_blocks (memset_block (set_i_block (mark_used sb ib) ino OSFS_N_DIRECT ib) ib) ino)
                   p) ib 0 p) ino"
proof -
  have r: "\<not> k < OSFS_N_DIRECT" "k - OSFS_N_DIRECT = 0" "(0::nat) < OSFS_ADDR_PER_BLOCK"
    using k by (simp_all add: osfs_consts)
  have z: "i_block (inode_table sb ino) OSFS_N_DIRECT = 0"
    and bc: "unat (block_count sb) \<le> DATA_BLOCK_COUNT" and b0: "block_bitmap sb 0"
    using inv k by (auto simp: seq_file_def)
  have g': "get_block_indirect sb ino 0 True = (Inr p, sb1)"
    using g r by (simp add: osfs_get_block_def Let_def)
  obtain ib sa where a1: "osfs_alloc_data_block sb = (Inr ib, sa)"
    using g' z by (auto simp: get_block_indirect_def Let_def split: prod.splits sum.splits)
  note f1 = alloc_facts[OF a1 b0]
  let ?s3 = "inc_i_blocks (memset_block (set_i_block (mark_used sb ib) ino OSFS_N_DIRECT ib) ib) ino"
  have nb: "\<not> DATA_BLOCK_COUNT \<le> unat ib" using f1(3) bc by simp
  have e0: "get_entry ?s3 ib 0 = 0" by simp
  have slot: "i_block (inode_table ?s3 ino) OSFS_N_DIRECT = ib" by simp
  obtain r2 sx where a2': "osfs_alloc_data_block ?s3 = (r2, sx)" by (cases "osfs_alloc_data_block ?s3")
  have "\<exists>p'. r2 = Inr p'"
    using g' z a1 nb e0 a2' slot
    by (cases r2) (auto simp: get_block_indirect_def Let_def f1(1))
  then obtain p' where a2: "osfs_alloc_data_block ?s3 = (Inr p', sx)" using a2' by auto
  have b0': "block_bitmap ?s3 0" using b0 by simp
  note f2 = alloc_facts[OF a2 b0']
  have "(Inr (get_entry (inc_i_blocks (set_entry sx ib 0 p') ino) ib 0),
           inc_i_blocks (set_entry sx ib 0 p') ino) = (Inr p, sb1)"
    using g' z a1 nb e0 a2 slot by (auto simp: get_block_indirect_def Let_def f1(1))
  then have pp: "p' = p" and s0: "sb1 = inc_i_blocks (set_entry sx ib 0 p') ino"
    by auto
  have s: "sb1 = inc_i_blocks (set_entry (mark_used ?s3 p) ib 0 p) ino"
    unfolding s0 f2(1) pp ..
  have "\<not> block_bitmap sb (unat p)" "p \<noteq> ib" "unat p < unat (block_count sb)"
    using f2(3,4) pp by auto
  moreover have "zero_bits (block_bitmap sb1) (unat (block_count sb)) + 2
             = zero_bits (block_bitmap sb) (unat (block_count sb))"
  proof -
    have "block_bitmap sb1 = block_bitmap sx" by (simp add: s0 fun_eq_iff)
    moreover have "block_bitmap ?s3 = block_bitmap sa" by (simp add: f1(1) fun_eq_iff)
    ultimately show ?thesis using f1(5) f2(5) by simp
  qed
  ultimately show ?thesis using f1 f2(2) pp s by blast
qed

lemma seq_step_indirect_new:
  assumes inv: "seq_file sb ino k Z F" and k: "k = OSFS_N_DIRECT"
    and g: "osfs_get_block sb ino k True = (Inr p, sb1)"
  shows "p \<noteq> 0" "unat p < unat (block_count sb)" "\<not> block_bitmap sb (unat p)"
    and "seq_file (sb1\<lparr>data_blocks := (data_blocks sb1)(unat p := blk)\<rparr>) ino (Suc k) Z F"
    and "file_block (sb1\<lparr>data_blocks := (data_blocks sb1)(unat p := blk)\<rparr>) ino k = p"
    and "\<forall>j<k. file_block (sb1\<lparr>data_blocks := (data_blocks sb1)(unat p := blk)\<rparr>) ino j
               = file_block sb ino j \<and> file_block sb ino j \<noteq> p"
    and "\<forall>q. q \<noteq> unat p \<and> block_bitmap sb q \<longrightarrow> data_blocks sb1 q = data_blocks sb q"
proof -
  let ?n = "sb1\<lparr>data_blocks := (data_blocks sb1)(unat p := blk)\<rparr>"
  from step_indirect_new[OF inv k g] obtain ib where
    ib: "ib \<noteq> 0" "unat ib < unat (block_count sb)" "\<not> block_bitmap sb (unat ib)"
    and p: "p \<noteq> 0" "unat p < unat (block_count sb)" "\<not> block_bitmap sb (unat p)" "p \<noteq> ib"
    and zb: "zero_bits (block_bitmap sb1) (unat (block_count sb)) + 2
             = zero_bits (block_bitmap sb) (unat (block_count sb))"
    and s: "sb1 = inc_i_blocks (set_entry (mark_used
                   (inc_i_blocks (memset_block (set_i_block (mark_used sb ib) ino OSFS_N_DIRECT ib) ib) ino)
                   p) ib 0 p) ino"
    by blast
  show "p \<noteq> 0" "unat p < unat (block_count sb)" "\<not> block_bitmap sb (unat p)" by (fact p)+
  have pib: "unat p \<noteq> unat ib" using p(4) by (simp add: word_unat_eq_iff)
  have bu: "blocks_used (Suc k) = blocks_used k + 2" "blocks_used k = k"
    using k by (auto simp: blocks_used_def)
  have slot: "i_block (inode_table sb1 ino) j =
               (if j = OSFS_N_DIRECT then ib else i_block (inode_table sb ino) j)" for j
    by (simp add: s)
  have ge: "get_entry ?n ib i = (if i = 0 then p else 0)" for i
    using pib by (auto simp: s get_entry_def get_put_u32 get_u32_zero)
  have fb: "file_block ?n ino j = (if j = k then p else file_block sb ino j)" if "j \<le> k" for j
    using that k by (auto simp: file_block_def slot ge)
  have old: "blk_ok sb (file_block sb ino j)" if "j < k" for j
    using inv that by (simp add: seq_file_def)
  have mono: "blk_ok ?n q" if "blk_ok sb q" for q
    using that by (simp add: blk_ok_def s)
  have ibk: "unat (i_blocks (inode_table sb ino)) = k" using inv bu by (simp add: seq_file_def)
  have k20: "k \<le> 20" using seq_file_k_small[OF inv] .
  show "seq_file ?n ino (Suc k) Z F"
    unfolding seq_file_def
  proof (intro conjI allI impI)
    show "unat (block_count ?n) \<le> DATA_BLOCK_COUNT" using inv by (simp add: s seq_file_def)
    show "Z \<le> DATA_BLOCK_COUNT" using inv by (simp add: seq_file_def)
    show "block_bitmap ?n 0" using inv by (simp add: s seq_file_def)
    show "zero_bits (block_bitmap ?n) (unat (block_count ?n)) + blocks_used (Suc k) = Z"
    proof -
      have "block_count ?n = block_count sb" by (simp add: s)
      moreover have "zero_bits (block_bitmap sb) (unat (block_count sb)) + blocks_used k = Z"
        using inv by (simp add: seq_file_def)
      ultimately show ?thesis using zb bu by simp
    qed
    show "nr_free_blocks ?n + of_nat (blocks_used (Suc k)) = F"
    proof -
      have "nr_free_blocks sb + of_nat (blocks_used k) = F" using inv by (simp add: seq_file_def)
      moreover have "nr_free_blocks ?n = nr_free_blocks sb - 1 - 1" by (simp add: s)
      moreover have "(of_nat (blocks_used (Suc k)) :: u32) = of_nat (blocks_used k) + 2"
        by (simp only: bu(1) of_nat_add of_nat_numeral)
      ultimately show ?thesis by simp
    qed
    show "unat (i_blocks (inode_table ?n ino)) = blocks_used (Suc k)"
    proof -
      have e: "i_blocks (inode_table ?n ino) = (i_blocks (inode_table sb ino) + 1) + 1"
        by (simp add: s)
      have u1: "unat (i_blocks (inode_table sb ino) + 1) = k + 1"
        using ibk k20 by (simp add: unat_inc_small)
      have u2: "unat ((i_blocks (inode_table sb ino) + 1) + 1)
                  = unat (i_blocks (inode_table sb ino) + 1) + 1"
        by (rule unat_inc_small) (simp add: u1 k20)
      show ?thesis unfolding e u2 u1 bu by simp
    qed
    show "blk_ok ?n (file_block ?n ino j)" if "j < Suc k" for j
    proof (cases "j = k")
      case True
      then show ?thesis using fb[of j] p by (simp add: blk_ok_def s)
    next
      case False
      then show ?thesis using fb[of j] that mono[OF old[of j]] by simp
    qed
    show "i_block (inode_table ?n ino) j = 0" if "Suc k \<le> j \<and> j < OSFS_N_DIRECT" for j
      using that k by auto
    show "i_block (inode_table ?n ino) (OSFS_N_DIRECT + 1) = 0"
      using inv by (simp add: slot seq_file_def)
    show "i_block (inode_table ?n ino) OSFS_N_DIRECT = 0" if "Suc k \<le> OSFS_N_DIRECT"
      using that k by simp
    show "blk_ok ?n (i_block (inode_table ?n ino) OSFS_N_DIRECT)"
      using ib by (simp add: slot blk_ok_def s)
    show "file_block ?n ino j \<noteq> i_block (inode_table ?n ino) OSFS_N_DIRECT"
      if "j < Suc k" for j
    proof (cases "j = k")
      case True
      then show ?thesis using fb[of j] p(4) by (simp add: slot)
    next
      case False
      then have "j < k" using that by simp
      then show ?thesis using fb[of j] old[of j] ib(3) by (auto simp: slot blk_ok_def)
    qed
    show "get_entry ?n (i_block (inode_table ?n ino) OSFS_N_DIRECT) i = 0"
      if "Suc k - OSFS_N_DIRECT \<le> i \<and> i < OSFS_ADDR_PER_BLOCK" for i
      using that k by (simp add: slot ge)
  qed
  show "file_block ?n ino k = p" using fb[of k] by simp
  show "\<forall>j<k. file_block ?n ino j = file_block sb ino j \<and> file_block sb ino j \<noteq> p"
  proof (intro allI impI)
    fix j assume j: "j < k"
    have "file_block sb ino j \<noteq> p" using old[OF j] p(3) by (auto simp: blk_ok_def)
    then show "file_block ?n ino j = file_block sb ino j \<and> file_block sb ino j \<noteq> p"
      using fb[of j] j by simp
  qed
  show "\<forall>q. q \<noteq> unat p \<and> block_bitmap sb q \<longrightarrow> data_blocks sb1 q = data_blocks sb q"
    using ib(3) by (auto simp: s)
qed

text \<open>One step of the sequential write, whatever the tier.\<close>

lemma seq_step:
  assumes inv: "seq_file sb ino k Z F"
    and g: "osfs_get_block sb ino k True = (Inr p, sb1)"
  shows "p \<noteq> 0 \<and> unat p < DATA_BLOCK_COUNT \<and>
      seq_file (sb1\<lparr>data_blocks := (data_blocks sb1)(unat p := blk)\<rparr>) ino (Suc k) Z F \<and>
      file_block (sb1\<lparr>data_blocks := (data_blocks sb1)(unat p := blk)\<rparr>) ino k = p \<and>
      (\<forall>j<k. file_block (sb1\<lparr>data_blocks := (data_blocks sb1)(unat p := blk)\<rparr>) ino j
               = file_block sb ino j \<and> file_block sb ino j \<noteq> p \<and>
               data_blocks sb1 (unat (file_block sb ino j))
                 = data_blocks sb (unat (file_block sb ino j))) \<and>
      i_size (inode_table sb1 ino) = i_size (inode_table sb ino)"
proof -
  let ?n = "sb1\<lparr>data_blocks := (data_blocks sb1)(unat p := blk)\<rparr>"
  have bc: "unat (block_count sb) \<le> DATA_BLOCK_COUNT" using inv by (simp add: seq_file_def)
  have old: "blk_ok sb (file_block sb ino j)" if "j < k" for j
    using inv that by (simp add: seq_file_def)
  consider (a) "k < OSFS_N_DIRECT" | (b) "k = OSFS_N_DIRECT" | (c) "OSFS_N_DIRECT < k"
    by linarith
  then show ?thesis
  proof cases
    case a
    note s = step_direct[OF inv a g]
    note t = seq_step_direct[OF inv a g]
    have "\<forall>j<k. data_blocks sb1 (unat (file_block sb ino j))
                 = data_blocks sb (unat (file_block sb ino j))"
      using t(3,4) by (auto simp: word_unat_eq_iff)
    moreover have "i_size (inode_table sb1 ino) = i_size (inode_table sb ino)"
      by (simp add: s(4))
    ultimately show ?thesis using s(1,2) t by simp
  next
    case b
    note t = seq_step_indirect_new[OF inv b g]
    have "\<forall>j<k. data_blocks sb1 (unat (file_block sb ino j))
                 = data_blocks sb (unat (file_block sb ino j))"
    proof (intro allI impI)
      fix j assume j: "j < k"
      have "unat (file_block sb ino j) \<noteq> unat p" using t(6) j by (auto simp: word_unat_eq_iff)
      moreover have "block_bitmap sb (unat (file_block sb ino j))"
        using old[OF j] by (simp add: blk_ok_def)
      ultimately show "data_blocks sb1 (unat (file_block sb ino j))
                 = data_blocks sb (unat (file_block sb ino j))" using t(7) by blast
    qed
    moreover have "i_size (inode_table sb1 ino) = i_size (inode_table sb ino)"
      using step_indirect_new[OF inv b g] by auto
    ultimately show ?thesis using t(1,2,4,5,6) bc by simp
  next
    case c
    note s = step_indirect_old[OF inv c g]
    note t = seq_step_indirect_old[OF inv c g]
    have "\<forall>j<k. data_blocks sb1 (unat (file_block sb ino j))
                 = data_blocks sb (unat (file_block sb ino j))"
    proof (intro allI impI)
      fix j assume j: "j < k"
      have "unat (file_block sb ino j) \<noteq> unat p" using t(3) j by (auto simp: word_unat_eq_iff)
      moreover have "file_block sb ino j \<noteq> i_block (inode_table sb ino) OSFS_N_DIRECT"
        using inv c j by (simp add: seq_file_def)
      ultimately show "data_blocks sb1 (unat (file_block sb ino j))
                 = data_blocks sb (unat (file_block sb ino j))"
        using t(4) by (auto simp: word_unat_eq_iff)
    qed
    moreover have "i_size (inode_table sb1 ino) = i_size (inode_table sb ino)"
      by (simp add: s(4))
    ultimately show ?thesis using s(1,2) t bc by simp
  qed
qed

lemma BLOCK_SIZE_pos: "0 < BLOCK_SIZE" by (simp add: BLOCK_SIZE_def)

lemma blk_read_write: "blk_read (blk_write blk off bytes) off (length bytes) = bytes"
  by (rule nth_equalityI) (simp_all add: blk_read_def blk_write_def)

lemma length_chunk: "length (chunk j W) = min BLOCK_SIZE (length W - j * BLOCK_SIZE)"
  by (simp add: chunk_def)

lemma chunk_append_old: "Suc j * BLOCK_SIZE \<le> length W \<Longrightarrow> chunk j (W @ X) = chunk j W"
  by (simp add: chunk_def)

lemma chunk_append_new:
  "length W = k * BLOCK_SIZE \<Longrightarrow> length X \<le> BLOCK_SIZE \<Longrightarrow> chunk k (W @ X) = X"
  by (simp add: chunk_def)

lemma blocks_after:
  "0 < n \<Longrightarrow> Suc ((n - min n BLOCK_SIZE + BLOCK_SIZE - 1) div BLOCK_SIZE)
     = (n + BLOCK_SIZE - 1) div BLOCK_SIZE"
proof (cases "n \<le> BLOCK_SIZE")
  case True
  then have "min n BLOCK_SIZE = n" by simp
  moreover have "(BLOCK_SIZE - 1) div BLOCK_SIZE = 0" by (simp add: BLOCK_SIZE_def)
  moreover have "(n + BLOCK_SIZE - 1) div BLOCK_SIZE = 1"
    if "0 < n" using that True unfolding BLOCK_SIZE_def by arith
  ultimately show "0 < n \<Longrightarrow> ?thesis" by simp
next
  case False
  then have m: "min n BLOCK_SIZE = BLOCK_SIZE" by simp
  have "(n + BLOCK_SIZE - 1) div BLOCK_SIZE = Suc ((n - 1) div BLOCK_SIZE)"
    using False unfolding BLOCK_SIZE_def by arith
  moreover have "n - BLOCK_SIZE + BLOCK_SIZE - 1 = n - 1" using False by simp
  ultimately show "0 < n \<Longrightarrow> ?thesis" unfolding m by simp
qed

lemma write_loop_sound:
  assumes ok: "user_copy_ok env"
  shows "seq_file sb ino k Z F \<Longrightarrow> holds_bytes sb ino k W \<Longrightarrow> length W = ppos
    \<Longrightarrow> ppos \<le> k * BLOCK_SIZE \<Longrightarrow> (buf \<noteq> [] \<longrightarrow> ppos = k * BLOCK_SIZE)
    \<Longrightarrow> write_loop env sb ino buf ppos bw = (None, sb', ppos', bw + length buf)
    \<Longrightarrow> seq_file sb' ino (k + (length buf + BLOCK_SIZE - 1) div BLOCK_SIZE) Z F \<and>
        holds_bytes sb' ino (k + (length buf + BLOCK_SIZE - 1) div BLOCK_SIZE) (W @ buf) \<and>
        ppos' = ppos + length buf \<and>
        i_size (inode_table sb' ino) = i_size (inode_table sb ino)"
proof (induction "length buf" arbitrary: buf sb ppos bw k W rule: less_induct)
  case less
  note inv = less.prems(1) and hb = less.prems(2) and lw = less.prems(3)
    and le = less.prems(4) and al = less.prems(5) and w = less.prems(6)
  show ?case
  proof (cases "buf = []")
    case True
    then have "sb' = sb" "ppos' = ppos" using w by (simp_all add: write_loop.simps)
    moreover have "(BLOCK_SIZE - 1) div BLOCK_SIZE = 0" by (simp add: BLOCK_SIZE_def)
    ultimately show ?thesis using True inv hb by simp
  next
    case False
    then have pk: "ppos = k * BLOCK_SIZE" using al by simp
    then have dv: "ppos div BLOCK_SIZE = k" "ppos mod BLOCK_SIZE = 0"
      using BLOCK_SIZE_pos by simp_all
    define tw where "tw = min (length buf) BLOCK_SIZE"
    have tw: "0 < tw" "tw \<le> BLOCK_SIZE" "tw \<le> length buf"
      using False BLOCK_SIZE_pos by (simp_all add: tw_def)
    obtain r sb1 where g: "osfs_get_block sb ino k True = (r, sb1)"
      by (cases "osfs_get_block sb ino k True")
    show ?thesis
    proof (cases r)
      case (Inl e)
      then have "write_loop env sb ino buf ppos bw =
           (if e \<noteq> OutOfBounds \<and> 0 < bw then (None, sb1, ppos, bw) else (Some e, sb1, ppos, bw))"
        using False g dv by (subst write_loop.simps) (simp add: Let_def)
      then have False using w False by (auto split: if_splits)
      then show ?thesis ..
    next
      case (Inr p)
      then have g': "osfs_get_block sb ino k True = (Inr p, sb1)" using g by simp
      let ?X = "take tw buf"
      let ?n = "sb1\<lparr>data_blocks := (data_blocks sb1)
                  (unat p := blk_write (data_blocks sb1 (unat p)) 0 ?X)\<rparr>"
      from seq_step[OF inv g', of "blk_write (data_blocks sb1 (unat p)) 0 ?X"]
      have st: "p \<noteq> 0" "unat p < DATA_BLOCK_COUNT" "seq_file ?n ino (Suc k) Z F"
        "file_block ?n ino k = p"
        "\<forall>j<k. file_block ?n ino j = file_block sb ino j \<and> file_block sb ino j \<noteq> p \<and>
               data_blocks sb1 (unat (file_block sb ino j))
                 = data_blocks sb (unat (file_block sb ino j))"
        "i_size (inode_table sb1 ino) = i_size (inode_table sb ino)"
        by blast+
      have wl: "write_loop env sb ino buf ppos bw =
                  write_loop env ?n ino (drop tw buf) (ppos + tw) (bw + tw)"
        using False g' dv st(1,2) ok
        by (subst write_loop.simps) (simp add: Let_def tw_def)
      have lX: "length ?X = tw" using tw by simp
      have hb': "holds_bytes ?n ino (Suc k) (W @ ?X)"
        unfolding holds_bytes_def
      proof (intro allI impI)
        fix j assume j: "j < Suc k"
        show "blk_read (data_blocks ?n (unat (file_block ?n ino j))) 0
                (length (chunk j (W @ ?X))) = chunk j (W @ ?X)"
        proof (cases "j = k")
          case True
          have c: "chunk k (W @ ?X) = ?X"
            using chunk_append_new[of W k ?X] lw pk tw lX by simp
          show ?thesis unfolding True st(4) c by (simp add: blk_read_write del: length_take)
        next
          case False
          then have jk: "j < k" using j by simp
          then have "Suc j \<le> k" by simp
          then have "Suc j * BLOCK_SIZE \<le> k * BLOCK_SIZE" by (rule mult_le_mono1)
          then have "Suc j * BLOCK_SIZE \<le> length W" using lw pk by simp
          then have c: "chunk j (W @ ?X) = chunk j W" by (rule chunk_append_old)
          have f: "file_block ?n ino j = file_block sb ino j" "file_block sb ino j \<noteq> p"
            "data_blocks sb1 (unat (file_block sb ino j)) = data_blocks sb (unat (file_block sb ino j))"
            using st(5) jk by simp_all
          have "unat (file_block sb ino j) \<noteq> unat p" using f(2) by (simp add: word_unat_eq_iff)
          then have "data_blocks ?n (unat (file_block ?n ino j)) =
                       data_blocks sb (unat (file_block sb ino j))"
            unfolding f(1) using f(3) by simp
          then show ?thesis unfolding c using hb jk by (simp add: holds_bytes_def)
        qed
      qed
      have len: "length (drop tw buf) < length buf" using tw False by simp
      have al': "drop tw buf \<noteq> [] \<longrightarrow> ppos + tw = Suc k * BLOCK_SIZE"
        using pk by (auto simp: tw_def min_def)
      have w': "write_loop env ?n ino (drop tw buf) (ppos + tw) (bw + tw)
                  = (None, sb', ppos', bw + tw + length (drop tw buf))"
        using w wl tw by simp
      from less.hyps[OF len st(3) hb' _ _ al' w']
      have r: "seq_file sb' ino (Suc k + (length (drop tw buf) + BLOCK_SIZE - 1) div BLOCK_SIZE) Z F \<and>
        holds_bytes sb' ino (Suc k + (length (drop tw buf) + BLOCK_SIZE - 1) div BLOCK_SIZE)
           ((W @ ?X) @ drop tw buf) \<and>
        ppos' = ppos + tw + length (drop tw buf) \<and>
        i_size (inode_table sb' ino) = i_size (inode_table ?n ino)"
        using lw lX pk tw by simp
      have n: "Suc k + (length (drop tw buf) + BLOCK_SIZE - 1) div BLOCK_SIZE
                 = k + (length buf + BLOCK_SIZE - 1) div BLOCK_SIZE"
        using blocks_after[of "length buf"] False by (simp add: tw_def)
      have "i_size (inode_table ?n ino) = i_size (inode_table sb ino)" using st(6) by simp
      then show ?thesis using r tw unfolding n by simp
    qed
  qed
qed

lemma read_loop_seq:
  assumes ok: "user_copy_ok env" and inv: "seq_file sb ino k Z F"
    and hb: "holds_bytes sb ino k W" and le: "length W \<le> k * BLOCK_SIZE"
  shows "ppos \<le> length W \<Longrightarrow> len = length W - ppos \<Longrightarrow> (0 < len \<longrightarrow> BLOCK_SIZE dvd ppos)
    \<Longrightarrow> out = take ppos W \<Longrightarrow> read_loop env sb ino len ppos out = (Inr W, sb, length W)"
proof (induction len arbitrary: ppos out rule: less_induct)
  case (less len)
  show ?case
  proof (cases "len = 0")
    case True
    then have "ppos = length W" using less.prems by simp
    then show ?thesis using True less.prems by (subst read_loop.simps) simp
  next
    case False
    then have pos: "0 < len" by simp
    then have "BLOCK_SIZE dvd ppos" using less.prems(3) by simp
    then obtain j where "ppos = BLOCK_SIZE * j" by (rule dvdE)
    then have pj: "ppos = j * BLOCK_SIZE" by (simp add: mult.commute)
    have dv: "ppos div BLOCK_SIZE = j" "ppos mod BLOCK_SIZE = 0"
      using pj BLOCK_SIZE_pos by simp_all
    have a: "j * BLOCK_SIZE < length W" using pos less.prems(2) pj by simp
    have "j * BLOCK_SIZE < k * BLOCK_SIZE" by (rule less_le_trans[OF a le])
    then have jk: "j < k" by simp
    define tr where "tr = min len BLOCK_SIZE"
    have tr: "0 < tr" "tr \<le> len" using pos BLOCK_SIZE_pos by (simp_all add: tr_def)
    have g: "osfs_get_block sb ino j False = (Inr (file_block sb ino j), sb)"
      by (rule seq_lookup[OF inv jk])
    have okb: "blk_ok sb (file_block sb ino j)" using inv jk by (simp add: seq_file_def)
    have bc: "unat (block_count sb) \<le> DATA_BLOCK_COUNT" using inv by (simp add: seq_file_def)
    have nz: "file_block sb ino j \<noteq> 0" "\<not> DATA_BLOCK_COUNT \<le> unat (file_block sb ino j)"
      using okb bc by (auto simp: blk_ok_def)
    have lc: "length (chunk j W) = tr"
      using less.prems(2) pj by (simp add: length_chunk tr_def min.commute)
    have "blk_read (data_blocks sb (unat (file_block sb ino j))) 0 (length (chunk j W))
            = chunk j W"
      using hb jk by (simp add: holds_bytes_def)
    then have rd: "blk_read (data_blocks sb (unat (file_block sb ino j))) 0 tr = chunk j W"
      unfolding lc .
    have step: "read_loop env sb ino len ppos out =
                  read_loop env sb ino (len - tr) (ppos + tr) (out @ chunk j W)"
      using pos g dv nz ok rd
      by (subst read_loop.simps) (simp add: Let_def tr_def)
    have o': "out @ chunk j W = take (ppos + tr) W"
    proof -
      have "tr = min BLOCK_SIZE (length (drop ppos W))"
        using less.prems(2) by (simp add: tr_def min.commute)
      then have "take tr (drop ppos W) = take BLOCK_SIZE (drop ppos W)"
        by (simp add: min_def)
      then have "chunk j W = take tr (drop ppos W)"
        using pj by (simp add: chunk_def)
      then show ?thesis using less.prems(4) by (simp add: take_add)
    qed
    have al': "0 < len - tr \<longrightarrow> BLOCK_SIZE dvd (ppos + tr)"
      using pj by (auto simp: tr_def min_def)
    have "read_loop env sb ino (len - tr) (ppos + tr) (out @ chunk j W) = (Inr W, sb, length W)"
      using less.IH[of "len - tr" "ppos + tr" "out @ chunk j W"] tr less.prems(1,2) al' o'
      by simp
    then show ?thesis using step by simp
  qed
qed

lemma seq_file_inode_upd:
  assumes "i_block nd = i_block (inode_table sb ino)" "i_blocks nd = i_blocks (inode_table sb ino)"
  shows "seq_file (sb\<lparr>inode_table := (inode_table sb)(ino := nd)\<rparr>) ino k Z F = seq_file sb ino k Z F"
    and "holds_bytes (sb\<lparr>inode_table := (inode_table sb)(ino := nd)\<rparr>) ino k W = holds_bytes sb ino k W"
  using assms
  by (simp_all add: seq_file_def holds_bytes_def blk_ok_def file_block_def get_entry_def)

lemma seq_file_fresh:
  assumes "\<forall>j<OSFS_N_BLOCKS. i_block (inode_table sb ino) j = 0"
    and "i_blocks (inode_table sb ino) = 0"
    and "unat (block_count sb) \<le> DATA_BLOCK_COUNT" and "block_bitmap sb 0"
  shows "seq_file sb ino 0 (zero_bits (block_bitmap sb) (unat (block_count sb))) (nr_free_blocks sb)"
proof -
  have "zero_bits (block_bitmap sb) (unat (block_count sb)) \<le> DATA_BLOCK_COUNT"
    using zero_bits_le[of "block_bitmap sb" "unat (block_count sb)"] assms(3) by simp
  then show ?thesis using assms
    by (simp add: seq_file_def blocks_used_def OSFS_N_BLOCKS_def OSFS_N_INDIRECT_def
        OSFS_N_DINDIRECT_def)
qed

lemma blocks_cover: "n \<le> ((n + BLOCK_SIZE - 1) div BLOCK_SIZE) * BLOCK_SIZE"
  unfolding BLOCK_SIZE_def by arith

lemma seq_file_bits: "seq_file sb ino k Z F \<Longrightarrow> unat (block_count sb) \<le> BLOCK_BITMAP_BITS"
  by (simp add: seq_file_def osfs_consts)

lemma seq_step_progress:
  assumes inv: "seq_file sb ino k Z F"
    and fr: "(if k = OSFS_N_DIRECT then 2 else 1) \<le> zero_bits (block_bitmap sb) (unat (block_count sb))"
  shows "\<exists>p sb1. osfs_get_block sb ino k True = (Inr p, sb1)"
proof -
  have bits: "unat (block_count sb) \<le> BLOCK_BITMAP_BITS" by (rule seq_file_bits[OF inv])
  have bc: "unat (block_count sb) \<le> DATA_BLOCK_COUNT" using inv by (simp add: seq_file_def)
  have pos: "0 < zero_bits (block_bitmap sb) (unat (block_count sb))"
    using fr by (auto split: if_splits)
  from alloc_exists[OF pos bits] obtain p where a: "osfs_alloc_data_block sb = (Inr p, mark_used sb p)"
    by blast
  have k20: "k \<le> 20" by (rule seq_file_k_small[OF inv])
  consider (a) "k < OSFS_N_DIRECT" | (b) "k = OSFS_N_DIRECT" | (c) "OSFS_N_DIRECT < k"
    by linarith
  then show ?thesis
  proof cases
    case a
    then have "i_block (inode_table sb ino) k = 0" using inv by (auto simp: seq_file_def)
    then show ?thesis using a \<open>osfs_alloc_data_block sb = _\<close>
      by (simp add: osfs_get_block_def Let_def)
  next
    case b
    have z: "i_block (inode_table sb ino) OSFS_N_DIRECT = 0" using inv b by (auto simp: seq_file_def)
    have pf: "unat p < unat (block_count sb)" "\<not> block_bitmap sb (unat p)"
      using alloc_Inr[OF a] by simp_all
    let ?s3 = "inc_i_blocks (memset_block (set_i_block (mark_used sb p) ino OSFS_N_DIRECT p) p) ino"
    have "zero_bits (block_bitmap (mark_used sb p)) (unat (block_count sb))
            = zero_bits (block_bitmap sb) (unat (block_count sb)) - 1"
      by (rule zero_bits_mark_used[OF pf])
    moreover have "block_bitmap ?s3 = block_bitmap (mark_used sb p)" by (simp add: fun_eq_iff)
    ultimately have "0 < zero_bits (block_bitmap ?s3) (unat (block_count ?s3))"
      using fr b by simp
    moreover have "unat (block_count ?s3) \<le> BLOCK_BITMAP_BITS" using bits by simp
    ultimately obtain q where a2: "osfs_alloc_data_block ?s3 = (Inr q, mark_used ?s3 q)"
      using alloc_exists by blast
    have nb: "\<not> DATA_BLOCK_COUNT \<le> unat p" using pf(1) bc by simp
    have "get_block_indirect sb ino 0 True =
            (Inr q, inc_i_blocks (set_entry (mark_used ?s3 q) p 0 q) ino)"
      using z a a2 nb by (simp add: get_block_indirect_def Let_def)
    then show ?thesis using b by (simp add: osfs_get_block_def Let_def osfs_consts)
  next
    case c
    let ?ib = "i_block (inode_table sb ino) OSFS_N_DIRECT"
    have r: "k - OSFS_N_DIRECT < OSFS_ADDR_PER_BLOCK" "\<not> k < OSFS_N_DIRECT"
      using c k20 by (simp_all add: osfs_consts)
    have ib: "blk_ok sb ?ib" and e: "get_entry sb ?ib (k - OSFS_N_DIRECT) = 0"
      using inv c r by (auto simp: seq_file_def)
    have ibs: "?ib \<noteq> 0" "\<not> DATA_BLOCK_COUNT \<le> unat ?ib" using ib bc by (auto simp: blk_ok_def)
    show ?thesis using r ibs e a
      by (simp add: osfs_get_block_def get_block_indirect_def Let_def)
  qed
qed

lemma seq_step_nospace:
  assumes inv: "seq_file sb ino k Z F"
    and fr: "zero_bits (block_bitmap sb) (unat (block_count sb)) = 0"
  shows "osfs_get_block sb ino k True = (Inl ENOSPC, sb)"
proof -
  have bits: "unat (block_count sb) \<le> BLOCK_BITMAP_BITS" by (rule seq_file_bits[OF inv])
  have bc: "unat (block_count sb) \<le> DATA_BLOCK_COUNT" using inv by (simp add: seq_file_def)
  have a: "osfs_alloc_data_block sb = (Inl ENOSPC, sb)" by (rule alloc_full[OF fr bits])
  have k20: "k \<le> 20" by (rule seq_file_k_small[OF inv])
  consider (a) "k < OSFS_N_DIRECT" | (b) "k = OSFS_N_DIRECT" | (c) "OSFS_N_DIRECT < k"
    by linarith
  then show ?thesis
  proof cases
    case a
    then have "i_block (inode_table sb ino) k = 0" using inv by (auto simp: seq_file_def)
    then show ?thesis using a \<open>osfs_alloc_data_block sb = _\<close>
      by (simp add: osfs_get_block_def Let_def)
  next
    case b
    have z: "i_block (inode_table sb ino) OSFS_N_DIRECT = 0" using inv b by (auto simp: seq_file_def)
    have "get_block_indirect sb ino 0 True = (Inl ENOSPC, sb)"
      using z a by (simp add: get_block_indirect_def Let_def)
    then show ?thesis using b by (simp add: osfs_get_block_def Let_def osfs_consts)
  next
    case c
    let ?ib = "i_block (inode_table sb ino) OSFS_N_DIRECT"
    have r: "k - OSFS_N_DIRECT < OSFS_ADDR_PER_BLOCK" "\<not> k < OSFS_N_DIRECT"
      using c k20 by (simp_all add: osfs_consts)
    have ib: "blk_ok sb ?ib" and e: "get_entry sb ?ib (k - OSFS_N_DIRECT) = 0"
      using inv c r by (auto simp: seq_file_def)
    have ibs: "?ib \<noteq> 0" "\<not> DATA_BLOCK_COUNT \<le> unat ?ib" using ib bc by (auto simp: blk_ok_def)
    show ?thesis using r ibs e a
      by (simp add: osfs_get_block_def get_block_indirect_def Let_def)
  qed
qed

lemma blocks_used_mono: "a \<le> b \<Longrightarrow> blocks_used a \<le> blocks_used b"
  by (auto simp: blocks_used_def)

lemma write_loop_progress:
  assumes ok: "user_copy_ok env"
  shows "seq_file sb ino k Z F \<Longrightarrow> (buf \<noteq> [] \<longrightarrow> ppos = k * BLOCK_SIZE)
    \<Longrightarrow> blocks_used (k + (length buf + BLOCK_SIZE - 1) div BLOCK_SIZE)
          \<le> blocks_used k + zero_bits (block_bitmap sb) (unat (block_count sb))
    \<Longrightarrow> \<exists>sb'. write_loop env sb ino buf ppos bw = (None, sb', ppos + length buf, bw + length buf)"
proof (induction "length buf" arbitrary: buf sb ppos bw k rule: less_induct)
  case less
  note inv = less.prems(1) and al = less.prems(2) and fr = less.prems(3)
  show ?case
  proof (cases "buf = []")
    case True
    then show ?thesis by (simp add: write_loop.simps)
  next
    case False
    then have pk: "ppos = k * BLOCK_SIZE" using al by simp
    then have dv: "ppos div BLOCK_SIZE = k" "ppos mod BLOCK_SIZE = 0"
      using BLOCK_SIZE_pos by simp_all
    define tw where "tw = min (length buf) BLOCK_SIZE"
    have tw: "0 < tw" "tw \<le> BLOCK_SIZE" "tw \<le> length buf"
      using False BLOCK_SIZE_pos by (simp_all add: tw_def)
    define nb where "nb = (length (drop tw buf) + BLOCK_SIZE - 1) div BLOCK_SIZE"
    have n: "(length buf + BLOCK_SIZE - 1) div BLOCK_SIZE = Suc nb"
      using blocks_after[of "length buf"] False by (simp add: tw_def nb_def)
    have "blocks_used (Suc k) \<le> blocks_used (k + Suc nb)" by (rule blocks_used_mono) simp
    then have "blocks_used (Suc k) \<le> blocks_used k + zero_bits (block_bitmap sb) (unat (block_count sb))"
      using fr n by simp
    then have "(if k = OSFS_N_DIRECT then 2 else 1) \<le> zero_bits (block_bitmap sb) (unat (block_count sb))"
      by (auto simp: blocks_used_def split: if_splits)
    from seq_step_progress[OF inv this] obtain p sb1
      where g: "osfs_get_block sb ino k True = (Inr p, sb1)" by blast
    let ?X = "take tw buf"
    let ?n = "sb1\<lparr>data_blocks := (data_blocks sb1)
                (unat p := blk_write (data_blocks sb1 (unat p)) 0 ?X)\<rparr>"
    from seq_step[OF inv g, of "blk_write (data_blocks sb1 (unat p)) 0 ?X"]
    have st: "p \<noteq> 0" "unat p < DATA_BLOCK_COUNT" "seq_file ?n ino (Suc k) Z F"
      by blast+
    have wl: "write_loop env sb ino buf ppos bw =
                write_loop env ?n ino (drop tw buf) (ppos + tw) (bw + tw)"
      using False g dv st(1,2) ok
      by (subst write_loop.simps) (simp add: Let_def tw_def)
    have len: "length (drop tw buf) < length buf" using tw False by simp
    have al': "drop tw buf \<noteq> [] \<longrightarrow> ppos + tw = Suc k * BLOCK_SIZE"
      using pk by (auto simp: tw_def min_def)
    have z: "zero_bits (block_bitmap sb) (unat (block_count sb)) + blocks_used k = Z"
      "zero_bits (block_bitmap ?n) (unat (block_count ?n)) + blocks_used (Suc k) = Z"
      using inv st(3) by (simp_all add: seq_file_def)
    have fr': "blocks_used (Suc k + nb)
          \<le> blocks_used (Suc k) + zero_bits (block_bitmap ?n) (unat (block_count ?n))"
      using fr n z by simp
    from less.hyps[OF len st(3) al' fr'[unfolded nb_def], of "bw + tw"]
    obtain sb' where "write_loop env ?n ino (drop tw buf) (ppos + tw) (bw + tw)
        = (None, sb', ppos + tw + length (drop tw buf), bw + tw + length (drop tw buf))"
      by blast
    then show ?thesis using wl tw by simp
  qed
qed

lemma write_loop_prefix:
  "BLOCK_SIZE dvd ppos \<Longrightarrow> BLOCK_SIZE dvd length B1
    \<Longrightarrow> write_loop env sb ino B1 ppos bw = (None, sb1, ppos1, bw + length B1)
    \<Longrightarrow> write_loop env sb ino (B1 @ B2) ppos bw = write_loop env sb1 ino B2 ppos1 (bw + length B1)"
proof (induction "length B1" arbitrary: B1 sb ppos bw rule: less_induct)
  case less
  show ?case
  proof (cases "B1 = []")
    case True
    then show ?thesis using less.prems(3) by (simp add: write_loop.simps)
  next
    case False
    obtain m where m: "length B1 = BLOCK_SIZE * m" using less.prems(2) by (rule dvdE)
    have "m \<noteq> 0"
    proof
      assume "m = 0"
      then have "length B1 = 0" using m by simp
      then show False using False by simp
    qed
    then have ge: "BLOCK_SIZE \<le> length B1" using m by (cases m) auto
    have md: "ppos mod BLOCK_SIZE = 0" using less.prems(1) by auto
    have mn: "min (length B1) BLOCK_SIZE = BLOCK_SIZE"
      "min (length B1 + length B2) BLOCK_SIZE = BLOCK_SIZE" using ge by simp_all
    obtain r sa where g: "osfs_get_block sb ino (ppos div BLOCK_SIZE) True = (r, sa)"
      by (cases "osfs_get_block sb ino (ppos div BLOCK_SIZE) True")
    let ?n = "\<lambda>p. sa\<lparr>data_blocks := (data_blocks sa)
                (unat p := blk_write (data_blocks sa (unat p)) 0 (take BLOCK_SIZE B1))\<rparr>"
    have u1: "write_loop env sb ino B1 ppos bw =
       (case r of
          Inl e \<Rightarrow> if e \<noteq> OutOfBounds \<and> 0 < bw then (None, sa, ppos, bw) else (Some e, sa, ppos, bw)
        | Inr p \<Rightarrow>
            if p = 0 then (if 0 < bw then (None, sa, ppos, bw) else (Some EIO, sa, ppos, bw))
            else if DATA_BLOCK_COUNT \<le> unat p then (Some OutOfBounds, sa, ppos, bw)
            else if \<not> user_copy_ok env then
              (if 0 < bw then (None, sa, ppos, bw) else (Some EFAULT, sa, ppos, bw))
            else write_loop env (?n p) ino (drop BLOCK_SIZE B1) (ppos + BLOCK_SIZE) (bw + BLOCK_SIZE))"
      using False g md mn
      by (subst write_loop.simps) (simp add: Let_def split: sum.splits)
    have u2: "write_loop env sb ino (B1 @ B2) ppos bw =
       (case r of
          Inl e \<Rightarrow> if e \<noteq> OutOfBounds \<and> 0 < bw then (None, sa, ppos, bw) else (Some e, sa, ppos, bw)
        | Inr p \<Rightarrow>
            if p = 0 then (if 0 < bw then (None, sa, ppos, bw) else (Some EIO, sa, ppos, bw))
            else if DATA_BLOCK_COUNT \<le> unat p then (Some OutOfBounds, sa, ppos, bw)
            else if \<not> user_copy_ok env then
              (if 0 < bw then (None, sa, ppos, bw) else (Some EFAULT, sa, ppos, bw))
            else write_loop env (?n p) ino (drop BLOCK_SIZE B1 @ B2) (ppos + BLOCK_SIZE) (bw + BLOCK_SIZE))"
      using False g md mn ge
      by (subst write_loop.simps) (simp add: Let_def split: sum.splits)
    have full: "\<exists>p. r = Inr p \<and> p \<noteq> 0 \<and> \<not> DATA_BLOCK_COUNT \<le> unat p \<and> user_copy_ok env"
      using less.prems(3) False unfolding u1
      by (cases r) (auto split: if_splits)
    then obtain p where p: "r = Inr p" "p \<noteq> 0" "\<not> DATA_BLOCK_COUNT \<le> unat p" "user_copy_ok env"
      by blast
    have len: "length (drop BLOCK_SIZE B1) < length B1" using ge BLOCK_SIZE_pos by simp
    have d1: "BLOCK_SIZE dvd ppos + BLOCK_SIZE" using less.prems(1) by simp
    have d2: "BLOCK_SIZE dvd length (drop BLOCK_SIZE B1)"
      using less.prems(2) ge by (simp add: dvd_diff_nat)
    have r1: "write_loop env (?n p) ino (drop BLOCK_SIZE B1) (ppos + BLOCK_SIZE) (bw + BLOCK_SIZE)
                = (None, sb1, ppos1, bw + BLOCK_SIZE + length (drop BLOCK_SIZE B1))"
      using less.prems(3) p ge unfolding u1 by simp
    from less.hyps[OF len d1 d2 r1]
    show ?thesis unfolding u2 using p ge by simp
  qed
qed

lemma osfs_write_seq:
  assumes ok: "user_copy_ok env" and inv: "seq_file sb ino k Z F"
    and hb: "holds_bytes sb ino k W" and lw: "length W = k * BLOCK_SIZE"
    and sz: "unat (i_size (inode_table sb ino)) = k * BLOCK_SIZE"
    and space: "blocks_used (k + (length buf + BLOCK_SIZE - 1) div BLOCK_SIZE)
                  \<le> blocks_used k + zero_bits (block_bitmap sb) (unat (block_count sb))"
  shows "\<exists>sb'. osfs_write env sb ino buf (k * BLOCK_SIZE)
                 = (Inr (length buf), sb', k * BLOCK_SIZE + length buf) \<and>
           seq_file sb' ino (k + (length buf + BLOCK_SIZE - 1) div BLOCK_SIZE) Z F \<and>
           holds_bytes sb' ino (k + (length buf + BLOCK_SIZE - 1) div BLOCK_SIZE) (W @ buf) \<and>
           unat (i_size (inode_table sb' ino)) = k * BLOCK_SIZE + length buf"
proof -
  define k' where "k' = k + (length buf + BLOCK_SIZE - 1) div BLOCK_SIZE"
  define pos where "pos = k * BLOCK_SIZE + length buf"
  from write_loop_progress[OF ok inv _ space, of "k * BLOCK_SIZE" 0]
  obtain sb1 where wl: "write_loop env sb ino buf (k * BLOCK_SIZE) 0 = (None, sb1, pos, 0 + length buf)"
    unfolding pos_def by auto
  from write_loop_sound[OF ok inv hb lw _ _ wl]
  have r: "seq_file sb1 ino k' Z F" "holds_bytes sb1 ino k' (W @ buf)"
    "i_size (inode_table sb1 ino) = i_size (inode_table sb ino)"
    by (simp_all add: k'_def)
  define nd where "nd = (if pos > unat (i_size (inode_table sb1 ino))
                         then (inode_table sb1 ino)\<lparr>i_size := of_nat pos\<rparr>
                         else inode_table sb1 ino)
                        \<lparr>i_mtime := cur_time env, i_ctime := cur_time env\<rparr>"
  define sb' where "sb' = sb1\<lparr>inode_table := (inode_table sb1)(ino := nd)\<rparr>"
  have w: "osfs_write env sb ino buf (k * BLOCK_SIZE) = (Inr (length buf), sb', pos)"
    using wl by (auto simp: osfs_write_def Let_def nd_def sb'_def)
  have nd: "i_block nd = i_block (inode_table sb1 ino)" "i_blocks nd = i_blocks (inode_table sb1 ino)"
    by (simp_all add: nd_def)
  have inv': "seq_file sb' ino k' Z F" and hb': "holds_bytes sb' ino k' (W @ buf)"
    unfolding sb'_def using seq_file_inode_upd[OF nd] r(1,2) by simp_all
  have k20: "k' \<le> 20" by (rule seq_file_k_small[OF inv'])
  have "length buf \<le> ((length buf + BLOCK_SIZE - 1) div BLOCK_SIZE) * BLOCK_SIZE"
    by (rule blocks_cover)
  then have "pos \<le> k' * BLOCK_SIZE" by (simp add: pos_def k'_def add_mult_distrib)
  moreover have "k' * BLOCK_SIZE \<le> 20 * BLOCK_SIZE" using k20 by (rule mult_le_mono1)
  ultimately have small: "pos < 2 ^ 32" by (simp add: BLOCK_SIZE_def)
  have sz': "unat (i_size (inode_table sb' ino)) = pos"
  proof (cases "buf = []")
    case True
    then show ?thesis using r(3) sz by (simp add: sb'_def nd_def pos_def)
  next
    case False
    then have "i_size (inode_table sb' ino) = of_nat pos"
      using r(3) sz by (simp add: sb'_def nd_def pos_def)
    then show ?thesis using small by (simp add: unat_of_nat take_bit_nat_eq_self)
  qed
  show ?thesis using w inv' hb' sz' unfolding k'_def pos_def by blast
qed

lemma osfs_read_seq:
  assumes ok: "user_copy_ok env" and inv: "seq_file sb ino k Z F"
    and hb: "holds_bytes sb ino k W" and le: "length W \<le> k * BLOCK_SIZE"
    and sz: "unat (i_size (inode_table sb ino)) = length W"
    and len: "length W \<le> len"
  shows "fst (osfs_read env sb ino len 0) = Inr W"
proof (cases "W = []")
  case True
  then show ?thesis using sz by (simp add: osfs_read_def)
next
  case False
  then have "0 < k" using le by (cases k) auto
  then have "unat (i_blocks (inode_table sb ino)) \<noteq> 0"
    using inv by (simp add: seq_file_def blocks_used_def)
  then have nb: "i_blocks (inode_table sb ino) \<noteq> 0" by (auto simp: unat_eq_0)
  have "read_loop env sb ino (length W) 0 [] = (Inr W, sb, length W)"
    by (rule read_loop_seq[OF ok inv hb le]) simp_all
  then show ?thesis using nb sz False len by (auto simp: osfs_read_def Let_def)
qed

lemma short_write:
  assumes ok: "user_copy_ok env" and inv: "seq_file sb ino 0 Z F"
    and sz: "i_size (inode_table sb ino) = 0"
    and full: "zero_bits (block_bitmap sb) (unat (block_count sb)) = blocks_used n"
    and l1: "length B1 = n * BLOCK_SIZE" and n: "0 < n" and B2: "B2 \<noteq> []"
    and len: "length B1 \<le> len"
  shows "fst (osfs_write env sb ino (B1 @ B2) 0) = Inr (length B1) \<and>
         fst (osfs_read env (fst (snd (osfs_write env sb ino (B1 @ B2) 0))) ino len 0) = Inr B1"
proof -
  have nb: "(length B1 + BLOCK_SIZE - 1) div BLOCK_SIZE = n"
    using l1 by (simp add: BLOCK_SIZE_def)
  have hb0: "holds_bytes sb ino 0 []" by (simp add: holds_bytes_def)
  have sp: "blocks_used (0 + (length B1 + BLOCK_SIZE - 1) div BLOCK_SIZE)
              \<le> blocks_used 0 + zero_bits (block_bitmap sb) (unat (block_count sb))"
    using full nb by simp
  from write_loop_progress[OF ok inv _ sp, of 0 0]
  obtain s1 where wl: "write_loop env sb ino B1 0 0 = (None, s1, 0 + length B1, 0 + length B1)"
    by auto
  from write_loop_sound[OF ok inv hb0 _ _ _ wl]
  have r: "seq_file s1 ino n Z F" "holds_bytes s1 ino n B1" "i_size (inode_table s1 ino) = 0"
    using nb sz by simp_all
  have "zero_bits (block_bitmap sb) (unat (block_count sb)) = Z"
    using inv by (simp add: seq_file_def blocks_used_def)
  moreover have "zero_bits (block_bitmap s1) (unat (block_count s1)) + blocks_used n = Z"
    using r(1) by (simp add: seq_file_def)
  ultimately have z: "zero_bits (block_bitmap s1) (unat (block_count s1)) = 0"
    using full by simp
  have g: "osfs_get_block s1 ino n True = (Inl ENOSPC, s1)"
    by (rule seq_step_nospace[OF r(1) z])
  have pre: "write_loop env sb ino (B1 @ B2) 0 0 = write_loop env s1 ino B2 (0 + length B1) (0 + length B1)"
    by (rule write_loop_prefix[OF _ _ wl]) (simp_all add: l1)
  have pos: "0 < length B1" using l1 n by (simp add: BLOCK_SIZE_def)
  have dv: "length B1 div BLOCK_SIZE = n" using l1 by (simp add: BLOCK_SIZE_def)
  have "write_loop env s1 ino B2 (length B1) (length B1) = (None, s1, length B1, length B1)"
    using B2 g pos dv by (subst write_loop.simps) (simp add: Let_def)
  then have wl2: "write_loop env sb ino (B1 @ B2) 0 0 = (None, s1, length B1, length B1)"
    using pre by simp
  define nd where "nd = (inode_table s1 ino)\<lparr>i_size := of_nat (length B1),
                         i_mtime := cur_time env, i_ctime := cur_time env\<rparr>"
  define sb' where "sb' = s1\<lparr>inode_table := (inode_table s1)(ino := nd)\<rparr>"
  have w: "osfs_write env sb ino (B1 @ B2) 0 = (Inr (length B1), sb', length B1)"
    using wl2 r(3) pos by (simp add: osfs_write_def Let_def nd_def sb'_def)
  have nd: "i_block nd = i_block (inode_table s1 ino)" "i_blocks nd = i_blocks (inode_table s1 ino)"
    by (simp_all add: nd_def)
  have inv': "seq_file sb' ino n Z F" and hb': "holds_bytes sb' ino n B1"
    unfolding sb'_def using seq_file_inode_upd[OF nd] r(1,2) by simp_all
  have k20: "n \<le> 20" by (rule seq_file_k_small[OF inv'])
  have "n * BLOCK_SIZE \<le> 20 * BLOCK_SIZE" using k20 by (rule mult_le_mono1)
  then have small: "length B1 < 2 ^ 32" using l1 by (simp add: BLOCK_SIZE_def)
  have sz': "unat (i_size (inode_table sb' ino)) = length B1"
    using small by (simp add: sb'_def nd_def unat_of_nat take_bit_nat_eq_self)
  have "fst (osfs_read env sb' ino len 0) = Inr B1"
    by (rule osfs_read_seq[OF ok inv' hb' _ sz' len]) (simp add: l1)
  then show ?thesis using w by simp
qed

lemma sb_one_file_facts:
  "\<forall>j<OSFS_N_BLOCKS. i_block (inode_table sb_one_file 2) j = 0"
  "i_size (inode_table sb_one_file 2) = 0"
  "i_blocks (inode_table sb_one_file 2) = 0"
  "unat (block_count sb_one_file) \<le> DATA_BLOCK_COUNT"
  "block_bitmap sb_one_file 0"
  "zero_bits (block_bitmap sb_one_file) (unat (block_count sb_one_file)) = 19"
  "user_copy_ok env_ok"
  by (simp_all add: sb_one_file_def file_inode_fresh_def env_ok_def osfs_consts zero_bits_def upt_rec)

text \<open>A write changes no inode but its own.\<close>

lemma alloc_frame:
  "osfs_alloc_data_block sb = (r, sb') \<Longrightarrow> inode_table sb' = inode_table sb"
proof (cases r)
  case (Inl e)
  assume "osfs_alloc_data_block sb = (r, sb')"
  then show ?thesis using alloc_Inl[of sb e sb'] Inl by simp
next
  case (Inr p)
  assume "osfs_alloc_data_block sb = (r, sb')"
  then show ?thesis using alloc_Inr[of sb p sb'] Inr by simp
qed

lemma slot_set_frame:
  "j \<noteq> ino \<Longrightarrow> inode_table (slot_set sb ino s v) j = inode_table sb j"
  by (cases s) simp_all

lemma data_slot_frame:
  assumes "data_slot sb ino s create = (r, sb')" and "j \<noteq> ino"
  shows "inode_table sb' j = inode_table sb j"
proof -
  obtain ra sa where a: "osfs_alloc_data_block sb = (ra, sa)"
    by (cases "osfs_alloc_data_block sb")
  have f: "inode_table sa = inode_table sb" by (rule alloc_frame[OF a])
  show ?thesis using assms a f
    by (cases ra) (auto simp: data_slot_def Let_def slot_set_frame split: if_splits)
qed

lemma index_slot_frame:
  assumes "index_slot sb ino s create = (r, sb')" and "j \<noteq> ino"
  shows "inode_table sb' j = inode_table sb j"
proof -
  obtain ra sa where a: "osfs_alloc_data_block sb = (ra, sa)"
    by (cases "osfs_alloc_data_block sb")
  have f: "inode_table sa = inode_table sb" by (rule alloc_frame[OF a])
  show ?thesis using assms a f
    by (cases ra) (auto simp: index_slot_def Let_def slot_set_frame split: if_splits)
qed

lemma tier_resolve_frame:
  assumes "tier_resolve sb ino t create = (r, sb')" and "j \<noteq> ino"
  shows "inode_table sb' j = inode_table sb j"
proof (cases t)
  case (Direct i)
  then show ?thesis using assms data_slot_frame by simp
next
  case (Indirect i)
  obtain r1 s1 where x: "index_slot sb ino (Ptr OSFS_N_DIRECT) create = (r1, s1)"
    by (cases "index_slot sb ino (Ptr OSFS_N_DIRECT) create")
  note f1 = index_slot_frame[OF x assms(2)]
  show ?thesis
  proof (cases r1)
    case (Inl e)
    then show ?thesis using assms(1) Indirect x f1 by simp
  next
    case (Inr u)
    then have "data_slot s1 ino (Entry (slot_get s1 ino (Ptr OSFS_N_DIRECT)) i) create = (r, sb')"
      using assms(1) Indirect x by simp
    from data_slot_frame[OF this assms(2)] f1 show ?thesis by simp
  qed
next
  case (DoubleIndirect outer inner)
  obtain r1 s1 where x: "index_slot sb ino (Ptr (OSFS_N_DIRECT + 1)) create = (r1, s1)"
    by (cases "index_slot sb ino (Ptr (OSFS_N_DIRECT + 1)) create")
  note f1 = index_slot_frame[OF x assms(2)]
  show ?thesis
  proof (cases r1)
    case (Inl e)
    then show ?thesis using assms(1) DoubleIndirect x f1 by simp
  next
    case (Inr u)
    let ?top = "Entry (slot_get s1 ino (Ptr (OSFS_N_DIRECT + 1))) outer"
    obtain r2 s2 where y: "index_slot s1 ino ?top create = (r2, s2)"
      by (cases "index_slot s1 ino ?top create")
    note f2 = index_slot_frame[OF y assms(2)]
    show ?thesis
    proof (cases r2)
      case (Inl e)
      then show ?thesis using assms(1) DoubleIndirect x Inr y f1 f2 by (simp add: Let_def)
    next
      case (Inr u2)
      then have "data_slot s2 ino (Entry (slot_get s2 ino ?top) inner) create = (r, sb')"
        using assms(1) DoubleIndirect x \<open>r1 = Inr u\<close> y by (simp add: Let_def)
      from data_slot_frame[OF this assms(2)] f1 f2 show ?thesis by simp
    qed
  qed
next
  case TooBig
  then show ?thesis using assms by simp
qed

lemma get_block_frame:
  "osfs_get_block sb ino b create = (r, sb') \<Longrightarrow> j \<noteq> ino \<Longrightarrow>
     inode_table sb' j = inode_table sb j"
  unfolding get_block_tier_resolve by (rule tier_resolve_frame)

lemma write_loop_frame:
  "write_loop env sb ino buf ppos bw = (e, sb', ppos', bw') \<Longrightarrow> j \<noteq> ino \<Longrightarrow>
     inode_table sb' j = inode_table sb j"
proof (induction "length buf" arbitrary: buf sb ppos bw rule: less_induct)
  case less
  show ?case
  proof (cases "buf = []")
    case True
    then show ?thesis using less.prems(1) by (simp add: write_loop.simps)
  next
    case False
    obtain r s1 where g: "osfs_get_block sb ino (ppos div BLOCK_SIZE) True = (r, s1)"
      by (cases "osfs_get_block sb ino (ppos div BLOCK_SIZE) True")
    note f = get_block_frame[OF g less.prems(2)]
    define tw where "tw = min (length buf) (BLOCK_SIZE - ppos mod BLOCK_SIZE)"
    have tw: "0 < tw" using False by (simp add: tw_def BLOCK_SIZE_def)
    show ?thesis
    proof (cases r)
      case (Inl x)
      then show ?thesis using less.prems(1) False g f
        by (subst (asm) write_loop.simps) (auto simp: Let_def split: if_splits)
    next
      case (Inr p)
      let ?n = "s1\<lparr>data_blocks := (data_blocks s1)
                 (unat p := blk_write (data_blocks s1 (unat p)) (ppos mod BLOCK_SIZE) (take tw buf))\<rparr>"
      have u: "write_loop env sb ino buf ppos bw =
          (if p = 0 then (if bw > 0 then (None, s1, ppos, bw) else (Some EIO, s1, ppos, bw))
           else if DATA_BLOCK_COUNT \<le> unat p then (Some OutOfBounds, s1, ppos, bw)
           else if \<not> user_copy_ok env then
             (if bw > 0 then (None, s1, ppos, bw) else (Some EFAULT, s1, ppos, bw))
           else write_loop env ?n ino (drop tw buf) (ppos + tw) (bw + tw))"
        using False g Inr by (subst write_loop.simps) (simp add: Let_def tw_def)
      show ?thesis
      proof (cases "p \<noteq> 0 \<and> \<not> DATA_BLOCK_COUNT \<le> unat p \<and> user_copy_ok env")
        case True
        then have w: "write_loop env ?n ino (drop tw buf) (ppos + tw) (bw + tw) = (e, sb', ppos', bw')"
          using less.prems(1) u by simp
        have "length (drop tw buf) < length buf" using tw False by simp
        from less.hyps[OF this w less.prems(2)] f show ?thesis by simp
      next
        case False
        then show ?thesis using less.prems(1) f unfolding u by (auto split: if_splits)
      qed
    qed
  qed
qed

lemma osfs_write_frame:
  assumes "osfs_write env sb ino buf ppos = (r, sb', ppos')" and "j \<noteq> ino"
  shows "inode_table sb' j = inode_table sb j"
proof -
  obtain e s1 p1 n where w: "write_loop env sb ino buf ppos 0 = (e, s1, p1, n)"
    by (cases "write_loop env sb ino buf ppos 0") auto
  note f = write_loop_frame[OF w assms(2)]
  show ?thesis using assms w f
    by (cases e) (auto simp: osfs_write_def Let_def split: if_splits)
qed

lemma seq_step_index_only:
  assumes inv: "seq_file sb ino OSFS_N_DIRECT Z F"
    and one: "zero_bits (block_bitmap sb) (unat (block_count sb)) = 1"
  shows "\<exists>ib. ib \<noteq> 0 \<and>
           osfs_get_block sb ino OSFS_N_DIRECT True =
             (Inl ENOSPC,
              inc_i_blocks (memset_block (set_i_block (mark_used sb ib) ino OSFS_N_DIRECT ib) ib) ino)"
proof -
  have bits: "unat (block_count sb) \<le> BLOCK_BITMAP_BITS" by (rule seq_file_bits[OF inv])
  have z: "i_block (inode_table sb ino) OSFS_N_DIRECT = 0"
    and bc: "unat (block_count sb) \<le> DATA_BLOCK_COUNT" and b0: "block_bitmap sb 0"
    using inv by (auto simp: seq_file_def)
  have "0 < zero_bits (block_bitmap sb) (unat (block_count sb))" using one by simp
  from alloc_exists[OF this bits] obtain ib
    where a1: "osfs_alloc_data_block sb = (Inr ib, mark_used sb ib)" by blast
  note f1 = alloc_facts[OF a1 b0]
  let ?s3 = "inc_i_blocks (memset_block (set_i_block (mark_used sb ib) ino OSFS_N_DIRECT ib) ib) ino"
  have nb: "\<not> DATA_BLOCK_COUNT \<le> unat ib" using f1(3) bc by simp
  have e0: "get_entry ?s3 ib 0 = 0" by simp
  have slot: "i_block (inode_table ?s3 ino) OSFS_N_DIRECT = ib" by simp
  have "block_bitmap ?s3 = block_bitmap (mark_used sb ib)" by (simp add: fun_eq_iff)
  then have "zero_bits (block_bitmap ?s3) (unat (block_count ?s3)) = 0"
    using f1(5) one by simp
  moreover have "unat (block_count ?s3) \<le> BLOCK_BITMAP_BITS" using bits by simp
  ultimately have a2: "osfs_alloc_data_block ?s3 = (Inl ENOSPC, ?s3)" by (rule alloc_full)
  have "get_block_indirect sb ino 0 True = (Inl ENOSPC, ?s3)"
    using z a1 nb e0 a2 slot by (simp add: get_block_indirect_def Let_def)
  then have "osfs_get_block sb ino OSFS_N_DIRECT True = (Inl ENOSPC, ?s3)"
    by (simp add: osfs_get_block_def Let_def osfs_consts)
  then show ?thesis using f1(2) by blast
qed

lemma boundary_no_space:
  assumes fresh: "\<forall>j<OSFS_N_BLOCKS. i_block (inode_table sb ino) j = 0"
      "i_size (inode_table sb ino) = 0" "i_blocks (inode_table sb ino) = 0"
    and bc: "unat (block_count sb) \<le> DATA_BLOCK_COUNT" and b0: "block_bitmap sb 0"
    and ok: "user_copy_ok env"
    and len: "length B = OSFS_N_DIRECT * BLOCK_SIZE"
    and space: "zero_bits (block_bitmap sb) (unat (block_count sb)) = OSFS_N_DIRECT + 1"
  shows "\<exists>sb1 sb2.
           osfs_write env sb ino B 0 = (Inr (length B), sb1, length B) \<and>
           nr_free_blocks sb1 = nr_free_blocks sb - 12 \<and>
           osfs_write env sb1 ino [c] (length B) = (Inl ENOSPC, sb2, length B) \<and>
           i_block (inode_table sb2 ino) OSFS_N_DIRECT \<noteq> 0 \<and>
           unat (i_blocks (inode_table sb2 ino)) = OSFS_N_DIRECT + 1 \<and>
           nr_free_blocks sb2 = nr_free_blocks sb1 - 1"
proof -
  define Z where "Z = zero_bits (block_bitmap sb) (unat (block_count sb))"
  define F where "F = nr_free_blocks sb"
  have inv0: "seq_file sb ino 0 Z F"
    unfolding Z_def F_def by (rule seq_file_fresh[OF fresh(1,3) bc b0])
  have hb0: "holds_bytes sb ino 0 []" by (simp add: holds_bytes_def)
  have n1: "(length B + BLOCK_SIZE - 1) div BLOCK_SIZE = OSFS_N_DIRECT"
    using len by (simp add: BLOCK_SIZE_def OSFS_N_DIRECT_def)
  have sp1: "blocks_used (0 + (length B + BLOCK_SIZE - 1) div BLOCK_SIZE)
              \<le> blocks_used 0 + zero_bits (block_bitmap sb) (unat (block_count sb))"
    using space unfolding n1 by (simp add: blocks_used_def)
  from osfs_write_seq[OF ok inv0 hb0 _ _ sp1]
  obtain sb1 where w1: "osfs_write env sb ino B 0 = (Inr (length B), sb1, length B)"
    and inv1: "seq_file sb1 ino OSFS_N_DIRECT Z F"
    using fresh(2) n1 by auto
  have z1: "zero_bits (block_bitmap sb1) (unat (block_count sb1)) + OSFS_N_DIRECT = Z"
    and f1: "nr_free_blocks sb1 + 12 = F"
    and ib1: "unat (i_blocks (inode_table sb1 ino)) = OSFS_N_DIRECT"
    using inv1 by (auto simp: seq_file_def blocks_used_def OSFS_N_DIRECT_def)
  have one: "zero_bits (block_bitmap sb1) (unat (block_count sb1)) = 1"
    using z1 space by (simp add: Z_def)
  from seq_step_index_only[OF inv1 one] obtain ib where ib: "ib \<noteq> 0"
    and g: "osfs_get_block sb1 ino OSFS_N_DIRECT True =
             (Inl ENOSPC,
              inc_i_blocks (memset_block (set_i_block (mark_used sb1 ib) ino OSFS_N_DIRECT ib) ib) ino)"
    by blast
  let ?s2 = "inc_i_blocks (memset_block (set_i_block (mark_used sb1 ib) ino OSFS_N_DIRECT ib) ib) ino"
  have dv: "length B div BLOCK_SIZE = OSFS_N_DIRECT" using len by (simp add: BLOCK_SIZE_def)
  have "write_loop env sb1 ino [c] (length B) 0 = (Some ENOSPC, ?s2, length B, 0)"
    using g dv by (subst write_loop.simps) (simp add: Let_def)
  then have w2: "osfs_write env sb1 ino [c] (length B) = (Inl ENOSPC, ?s2, length B)"
    by (simp add: osfs_write_def)
  have s12: "i_block (inode_table ?s2 ino) OSFS_N_DIRECT \<noteq> 0" using ib by simp
  have "unat (i_blocks (inode_table sb1 ino)) \<le> 21" using ib1 by (simp add: OSFS_N_DIRECT_def)
  then have ib2: "unat (i_blocks (inode_table ?s2 ino)) = OSFS_N_DIRECT + 1"
    using ib1 by (simp add: unat_inc_small)
  have nf: "nr_free_blocks ?s2 = nr_free_blocks sb1 - 1" by simp
  have g1: "nr_free_blocks sb1 = nr_free_blocks sb - 12"
    using f1 by (simp add: F_def eq_diff_eq)
  show ?thesis using w1 g1 w2 s12 ib2 nf by blast
qed

subsection \<open>Write followed by read\<close>

text \<open>
  Claim C2 as stated fails: the data area has \<^verbatim>\<open>DATA_BLOCK_COUNT\<close> = 20 blocks.
  In the state after the create of \<^verbatim>\<open>a.txt\<close>, 19 of them are free; a write of
  18 blocks and one byte to the new file (inode 2) takes 18 data blocks and the
  indirect index block, finds no block for the last byte and returns the short
  count \<open>18 * BLOCK_SIZE\<close>.  Reading \<open>18 * BLOCK_SIZE + 1\<close> bytes from offset 0
  then returns the first \<open>18 * BLOCK_SIZE\<close> bytes only.
\<close>

theorem write_beyond_capacity:
  "osfs_create env_ok sb_fresh 1 name_a mode_file = (Inr 2, sb_one_file) \<and>
   fst (osfs_write env_ok sb_one_file 2 (replicate (18 * BLOCK_SIZE + 1) 0x41) 0)
     = Inr (18 * BLOCK_SIZE) \<and>
   fst (osfs_read env_ok
          (fst (snd (osfs_write env_ok sb_one_file 2 (replicate (18 * BLOCK_SIZE + 1) 0x41) 0)))
          2 (18 * BLOCK_SIZE + 1) 0)
     = Inr (replicate (18 * BLOCK_SIZE) 0x41) \<and>
   replicate (18 * BLOCK_SIZE) (0x41 :: u8) \<noteq> replicate (18 * BLOCK_SIZE + 1) 0x41"
proof -
  let ?B1 = "replicate (18 * BLOCK_SIZE) (0x41 :: u8)"
  have inv: "seq_file sb_one_file 2 0 19 (nr_free_blocks sb_one_file)"
    using seq_file_fresh[OF sb_one_file_facts(1,3,4,5)] by (simp only: sb_one_file_facts(6))
  have full: "zero_bits (block_bitmap sb_one_file) (unat (block_count sb_one_file)) = blocks_used 18"
    by (simp add: sb_one_file_facts(6) blocks_used_def OSFS_N_DIRECT_def)
  have split: "replicate (18 * BLOCK_SIZE + 1) (0x41 :: u8) = ?B1 @ [0x41]"
    by (simp add: replicate_append_same)
  have "fst (osfs_write env_ok sb_one_file 2 (?B1 @ [0x41]) 0) = Inr (length ?B1) \<and>
        fst (osfs_read env_ok (fst (snd (osfs_write env_ok sb_one_file 2 (?B1 @ [0x41]) 0)))
               2 (18 * BLOCK_SIZE + 1) 0) = Inr ?B1"
    by (rule short_write[OF sb_one_file_facts(7) inv sb_one_file_facts(2) full]) simp_all
  moreover have "?B1 \<noteq> ?B1 @ [0x41]" by simp
  ultimately show ?thesis unfolding split using create_one_file by simp
qed

text \<open>
  Claim C2 as amended.  Take a file without blocks and of size 0, in a state
  where block 0 is in use (as it is once the root directory has an entry) and
  where the block bitmap has enough zero bits for the data blocks of \<open>B\<close>,
  plus one for the indirect index block when \<open>B\<close> needs more than
  \<^verbatim>\<open>OSFS_N_DIRECT\<close> blocks.  Then writing \<open>B\<close> at offset 0 returns the length of
  \<open>B\<close>, sets the file size to it, and reading that many bytes from offset 0
  returns exactly \<open>B\<close>.
\<close>

theorem write_read_roundtrip:
  assumes fresh: "\<forall>j<OSFS_N_BLOCKS. i_block (inode_table sb ino) j = 0"
      "i_size (inode_table sb ino) = 0" "i_blocks (inode_table sb ino) = 0"
    and bc: "unat (block_count sb) \<le> DATA_BLOCK_COUNT" and b0: "block_bitmap sb 0"
    and ok: "user_copy_ok env"
    and space: "blocks_used ((length B + BLOCK_SIZE - 1) div BLOCK_SIZE)
                  \<le> zero_bits (block_bitmap sb) (unat (block_count sb))"
  shows "\<exists>sb'. osfs_write env sb ino B 0 = (Inr (length B), sb', length B) \<and>
           unat (i_size (inode_table sb' ino)) = length B \<and>
           fst (osfs_read env sb' ino (length B) 0) = Inr B"
proof -
  define Z where "Z = zero_bits (block_bitmap sb) (unat (block_count sb))"
  define k where "k = (length B + BLOCK_SIZE - 1) div BLOCK_SIZE"
  have inv0: "seq_file sb ino 0 Z (nr_free_blocks sb)"
    unfolding Z_def by (rule seq_file_fresh[OF fresh(1,3) bc b0])
  have hb0: "holds_bytes sb ino 0 []" by (simp add: holds_bytes_def)
  have sp: "blocks_used (0 + (length B + BLOCK_SIZE - 1) div BLOCK_SIZE)
              \<le> blocks_used 0 + zero_bits (block_bitmap sb) (unat (block_count sb))"
    using space by simp
  from osfs_write_seq[OF ok inv0 hb0 _ _ sp]
  obtain sb' where w: "osfs_write env sb ino B 0 = (Inr (length B), sb', length B)"
    and inv: "seq_file sb' ino k Z (nr_free_blocks sb)" and hb: "holds_bytes sb' ino k B"
    and sz: "unat (i_size (inode_table sb' ino)) = length B"
    using fresh(2) by (auto simp: k_def)
  have cover: "length B \<le> k * BLOCK_SIZE" unfolding k_def by (rule blocks_cover)
  have "fst (osfs_read env sb' ino (length B) 0) = Inr B"
    by (rule osfs_read_seq[OF ok inv hb cover sz]) simp
  then show ?thesis using w sz by blast
qed

theorem write_read_roundtrip_witness:
  "i_block (inode_table sb_one_file 2) = (\<lambda>_. 0) \<and>
   i_size (inode_table sb_one_file 2) = 0 \<and> i_blocks (inode_table sb_one_file 2) = 0 \<and>
   unat (block_count sb_one_file) \<le> DATA_BLOCK_COUNT \<and> block_bitmap sb_one_file 0 \<and>
   user_copy_ok env_ok \<and>
   blocks_used ((length (replicate 50000 (0x41 :: u8)) + BLOCK_SIZE - 1) div BLOCK_SIZE)
     \<le> zero_bits (block_bitmap sb_one_file) (unat (block_count sb_one_file)) \<and>
   (\<exists>sb'. osfs_write env_ok sb_one_file 2 (replicate 50000 0x41) 0 = (Inr 50000, sb', 50000) \<and>
      unat (i_size (inode_table sb' 2)) = 50000 \<and>
      fst (osfs_read env_ok sb' 2 50000 0) = Inr (replicate 50000 0x41))"
proof -
  have ib: "i_block (inode_table sb_one_file 2) = (\<lambda>_. 0)"
    by (simp add: sb_one_file_def file_inode_fresh_def)
  have sp: "blocks_used ((length (replicate 50000 (0x41 :: u8)) + BLOCK_SIZE - 1) div BLOCK_SIZE)
     \<le> zero_bits (block_bitmap sb_one_file) (unat (block_count sb_one_file))"
    by (simp add: sb_one_file_facts(6) blocks_used_def BLOCK_SIZE_def OSFS_N_DIRECT_def)
  from write_read_roundtrip[OF sb_one_file_facts(1,2,3,4,5,7) sp]
  show ?thesis using ib sb_one_file_facts(2,3,4,5,7) sp by simp
qed

subsection \<open>The boundary between direct and indirect blocks\<close>

text \<open>
  Claim C9 as stated fails when fewer than \<open>OSFS_N_DIRECT + 2\<close> blocks are
  free.  After the creates of \<^verbatim>\<open>a.txt\<close> (inode 2) and \<^verbatim>\<open>b\<close> (inode 3) and a
  write of 6 blocks to \<^verbatim>\<open>b\<close>, 13 blocks are free and \<^verbatim>\<open>a.txt\<close> is still
  without blocks.  Writing \<open>OSFS_N_DIRECT * BLOCK_SIZE\<close> bytes to it succeeds
  and leaves one free block; the write of one more byte takes that block for
  the indirect index block, finds none for the data block and returns
  \<^verbatim>\<open>ENOSPC\<close>: \<^verbatim>\<open>nr_free_blocks\<close> has gone from 1 to 0, not down by 2.
\<close>

theorem boundary_without_space:
  "osfs_create env_ok sb_fresh 1 name_a mode_file = (Inr 2, sb_one_file) \<and>
   osfs_create env_ok sb_one_file 1 name_b mode_file = (Inr 3, sb_two_files) \<and>
   (\<exists>s0 s1 s2.
      osfs_write env_ok sb_two_files 3 (replicate (6 * BLOCK_SIZE) 0x42) 0
        = (Inr (6 * BLOCK_SIZE), s0, 6 * BLOCK_SIZE) \<and>
      inode_table s0 2 = file_inode_fresh \<and> nr_free_blocks s0 = 13 \<and>
      osfs_write env_ok s0 2 (replicate (OSFS_N_DIRECT * BLOCK_SIZE) 0x41) 0
        = (Inr (OSFS_N_DIRECT * BLOCK_SIZE), s1, OSFS_N_DIRECT * BLOCK_SIZE) \<and>
      nr_free_blocks s1 = 1 \<and>
      osfs_write env_ok s1 2 [0x41] (OSFS_N_DIRECT * BLOCK_SIZE)
        = (Inl ENOSPC, s2, OSFS_N_DIRECT * BLOCK_SIZE) \<and>
      i_block (inode_table s2 2) OSFS_N_DIRECT \<noteq> 0 \<and>
      unat (i_blocks (inode_table s2 2)) = OSFS_N_DIRECT + 1 \<and>
      nr_free_blocks s2 = 0)"
proof -
  let ?H = "replicate (6 * BLOCK_SIZE) (0x42 :: u8)"
  let ?B = "replicate (OSFS_N_DIRECT * BLOCK_SIZE) (0x41 :: u8)"
  have ok: "user_copy_ok env_ok" by (simp add: env_ok_def)
  have inv0: "seq_file sb_two_files 3 0 19 19"
    using seq_file_fresh[OF sb_two_files_facts(1,3,4,5)]
    by (simp only: sb_two_files_facts(6,7))
  have hb0: "holds_bytes sb_two_files 3 0 []" by (simp add: holds_bytes_def)
  have n: "(length ?H + BLOCK_SIZE - 1) div BLOCK_SIZE = 6" by (simp add: BLOCK_SIZE_def)
  have sp: "blocks_used (0 + (length ?H + BLOCK_SIZE - 1) div BLOCK_SIZE)
              \<le> blocks_used 0 + zero_bits (block_bitmap sb_two_files) (unat (block_count sb_two_files))"
    unfolding n by (simp add: sb_two_files_facts(6) blocks_used_def OSFS_N_DIRECT_def)
  from osfs_write_seq[OF ok inv0 hb0 _ _ sp]
  obtain s0 where w0: "osfs_write env_ok sb_two_files 3 ?H 0 = (Inr (6 * BLOCK_SIZE), s0, 6 * BLOCK_SIZE)"
    and i0: "seq_file s0 3 6 19 19"
    unfolding n using sb_two_files_facts(2) by auto
  have fr: "inode_table s0 2 = file_inode_fresh"
    using osfs_write_frame[OF w0, of 2] sb_two_files_facts(8) by simp
  have bc: "unat (block_count s0) \<le> DATA_BLOCK_COUNT" and b0: "block_bitmap s0 0"
    and z0: "zero_bits (block_bitmap s0) (unat (block_count s0)) + 6 = 19"
    and f0: "nr_free_blocks s0 + 6 = 19"
    using i0 by (auto simp: seq_file_def blocks_used_def OSFS_N_DIRECT_def)
  have nf0: "nr_free_blocks s0 = 13" using f0 by (simp add: eq_diff_eq[symmetric])
  have fresh: "\<forall>j<OSFS_N_BLOCKS. i_block (inode_table s0 2) j = 0"
    "i_size (inode_table s0 2) = 0" "i_blocks (inode_table s0 2) = 0"
    by (simp_all add: fr file_inode_fresh_def)
  have sp13: "zero_bits (block_bitmap s0) (unat (block_count s0)) = OSFS_N_DIRECT + 1"
    using z0 by (simp add: OSFS_N_DIRECT_def)
  from boundary_no_space[OF fresh bc b0 ok _ sp13, of ?B "0x41"]
  obtain s1 s2 where
    "osfs_write env_ok s0 2 ?B 0 = (Inr (OSFS_N_DIRECT * BLOCK_SIZE), s1, OSFS_N_DIRECT * BLOCK_SIZE)"
    "nr_free_blocks s1 = 1"
    "osfs_write env_ok s1 2 [0x41] (OSFS_N_DIRECT * BLOCK_SIZE) = (Inl ENOSPC, s2, OSFS_N_DIRECT * BLOCK_SIZE)"
    "i_block (inode_table s2 2) OSFS_N_DIRECT \<noteq> 0"
    "unat (i_blocks (inode_table s2 2)) = OSFS_N_DIRECT + 1"
    "nr_free_blocks s2 = 0"
    by (auto simp: nf0)
  then show ?thesis using create_one_file create_second_file w0 fr nf0 by blast
qed

text \<open>
  Claim C9 as amended.  For a file without blocks and of size 0, in a state
  where block 0 is in use and at least \<open>OSFS_N_DIRECT + 2\<close> blocks are free:
  writing exactly \<open>OSFS_N_DIRECT * BLOCK_SIZE\<close> bytes at offset 0 succeeds,
  fills the 12 direct pointers and leaves the indirect and double-indirect
  pointers 0, taking 12 blocks.  Writing one more byte at the end then
  succeeds, sets the indirect pointer to an index block and entry 0 of that
  block to a different data block; the inode then counts 14 blocks, the block
  bitmap has 2 zero bits fewer and \<^verbatim>\<open>nr_free_blocks\<close> is smaller by exactly 2.
\<close>

theorem indirect_boundary:
  assumes fresh: "\<forall>j<OSFS_N_BLOCKS. i_block (inode_table sb ino) j = 0"
      "i_size (inode_table sb ino) = 0" "i_blocks (inode_table sb ino) = 0"
    and bc: "unat (block_count sb) \<le> DATA_BLOCK_COUNT" and b0: "block_bitmap sb 0"
    and ok: "user_copy_ok env"
    and len: "length B = OSFS_N_DIRECT * BLOCK_SIZE"
    and space: "OSFS_N_DIRECT + 2 \<le> zero_bits (block_bitmap sb) (unat (block_count sb))"
  shows "\<exists>sb1 sb2.
           osfs_write env sb ino B 0 = (Inr (length B), sb1, length B) \<and>
           (\<forall>j<OSFS_N_DIRECT. i_block (inode_table sb1 ino) j \<noteq> 0) \<and>
           i_block (inode_table sb1 ino) OSFS_N_DIRECT = 0 \<and>
           i_block (inode_table sb1 ino) (OSFS_N_DIRECT + 1) = 0 \<and>
           unat (i_blocks (inode_table sb1 ino)) = OSFS_N_DIRECT \<and>
           zero_bits (block_bitmap sb1) (unat (block_count sb1)) + OSFS_N_DIRECT
             = zero_bits (block_bitmap sb) (unat (block_count sb)) \<and>
           nr_free_blocks sb1 = nr_free_blocks sb - 12 \<and>
           osfs_write env sb1 ino [c] (length B) = (Inr 1, sb2, length B + 1) \<and>
           blk_ok sb2 (i_block (inode_table sb2 ino) OSFS_N_DIRECT) \<and>
           blk_ok sb2 (get_entry sb2 (i_block (inode_table sb2 ino) OSFS_N_DIRECT) 0) \<and>
           get_entry sb2 (i_block (inode_table sb2 ino) OSFS_N_DIRECT) 0
             \<noteq> i_block (inode_table sb2 ino) OSFS_N_DIRECT \<and>
           i_block (inode_table sb2 ino) (OSFS_N_DIRECT + 1) = 0 \<and>
           unat (i_blocks (inode_table sb2 ino)) = OSFS_N_DIRECT + 2 \<and>
           zero_bits (block_bitmap sb2) (unat (block_count sb2)) + 2
             = zero_bits (block_bitmap sb1) (unat (block_count sb1)) \<and>
           nr_free_blocks sb2 = nr_free_blocks sb1 - 2"
proof -
  define Z where "Z = zero_bits (block_bitmap sb) (unat (block_count sb))"
  define F where "F = nr_free_blocks sb"
  have inv0: "seq_file sb ino 0 Z F"
    unfolding Z_def F_def by (rule seq_file_fresh[OF fresh(1,3) bc b0])
  have hb0: "holds_bytes sb ino 0 []" by (simp add: holds_bytes_def)
  have n1: "(length B + BLOCK_SIZE - 1) div BLOCK_SIZE = OSFS_N_DIRECT"
    using len by (simp add: BLOCK_SIZE_def OSFS_N_DIRECT_def)
  have sp1: "blocks_used (0 + (length B + BLOCK_SIZE - 1) div BLOCK_SIZE)
              \<le> blocks_used 0 + zero_bits (block_bitmap sb) (unat (block_count sb))"
    using space unfolding n1 by (simp add: blocks_used_def)
  from osfs_write_seq[OF ok inv0 hb0 _ _ sp1]
  obtain sb1 where w1: "osfs_write env sb ino B 0 = (Inr (length B), sb1, length B)"
    and inv1: "seq_file sb1 ino OSFS_N_DIRECT Z F" and hb1: "holds_bytes sb1 ino OSFS_N_DIRECT B"
    and sz1: "unat (i_size (inode_table sb1 ino)) = OSFS_N_DIRECT * BLOCK_SIZE"
    using fresh(2) n1 len by auto
  have z1: "zero_bits (block_bitmap sb1) (unat (block_count sb1)) + OSFS_N_DIRECT = Z"
    and f1: "nr_free_blocks sb1 + 12 = F"
    and ib1: "unat (i_blocks (inode_table sb1 ino)) = OSFS_N_DIRECT"
    and d1: "\<forall>j<OSFS_N_DIRECT. i_block (inode_table sb1 ino) j \<noteq> 0"
    and s12: "i_block (inode_table sb1 ino) OSFS_N_DIRECT = 0"
    and s13: "i_block (inode_table sb1 ino) (OSFS_N_DIRECT + 1) = 0"
    using inv1 by (auto simp: seq_file_def blocks_used_def blk_ok_def file_block_def OSFS_N_DIRECT_def)
  have n2: "(length [c] + BLOCK_SIZE - 1) div BLOCK_SIZE = 1" by (simp add: BLOCK_SIZE_def)
  have sp2: "blocks_used (OSFS_N_DIRECT + (length [c] + BLOCK_SIZE - 1) div BLOCK_SIZE)
              \<le> blocks_used OSFS_N_DIRECT + zero_bits (block_bitmap sb1) (unat (block_count sb1))"
    using space z1 unfolding n2 by (simp add: blocks_used_def Z_def)
  from osfs_write_seq[OF ok inv1 hb1 len sz1 sp2]
  obtain sb2 where w2: "osfs_write env sb1 ino [c] (length B) = (Inr 1, sb2, length B + 1)"
    and inv2: "seq_file sb2 ino (OSFS_N_DIRECT + 1) Z F"
    unfolding n2 using len by auto
  have z2: "zero_bits (block_bitmap sb2) (unat (block_count sb2)) + (OSFS_N_DIRECT + 2) = Z"
    and f2: "nr_free_blocks sb2 + 14 = F"
    and ib2: "unat (i_blocks (inode_table sb2 ino)) = OSFS_N_DIRECT + 2"
    and x12: "blk_ok sb2 (i_block (inode_table sb2 ino) OSFS_N_DIRECT)"
    and x13: "i_block (inode_table sb2 ino) (OSFS_N_DIRECT + 1) = 0"
    using inv2 by (auto simp: seq_file_def blocks_used_def OSFS_N_DIRECT_def)
  have fb: "file_block sb2 ino OSFS_N_DIRECT
              = get_entry sb2 (i_block (inode_table sb2 ino) OSFS_N_DIRECT) 0"
    by (simp add: file_block_def)
  have "blk_ok sb2 (file_block sb2 ino OSFS_N_DIRECT)"
    "file_block sb2 ino OSFS_N_DIRECT \<noteq> i_block (inode_table sb2 ino) OSFS_N_DIRECT"
    using inv2 by (auto simp: seq_file_def)
  then have e0: "blk_ok sb2 (get_entry sb2 (i_block (inode_table sb2 ino) OSFS_N_DIRECT) 0)"
    "get_entry sb2 (i_block (inode_table sb2 ino) OSFS_N_DIRECT) 0
       \<noteq> i_block (inode_table sb2 ino) OSFS_N_DIRECT"
    unfolding fb by simp_all
  have g1: "nr_free_blocks sb1 = nr_free_blocks sb - 12"
    using f1 by (simp add: F_def eq_diff_eq)
  have "nr_free_blocks sb2 + 2 + 12 = nr_free_blocks sb2 + 14" by simp
  also have "\<dots> = nr_free_blocks sb1 + 12" using f1 f2 by simp
  finally have "nr_free_blocks sb2 + 2 = nr_free_blocks sb1" by (simp only: add_right_cancel)
  then have g2: "nr_free_blocks sb2 = nr_free_blocks sb1 - 2" by (simp add: eq_diff_eq)
  have zz: "zero_bits (block_bitmap sb2) (unat (block_count sb2)) + 2
             = zero_bits (block_bitmap sb1) (unat (block_count sb1))"
    using z1 z2 by simp
  show ?thesis using w1 d1 s12 s13 ib1 z1 g1 w2 x12 e0 x13 ib2 zz g2 unfolding Z_def by blast
qed

theorem indirect_boundary_witness:
  "i_block (inode_table sb_one_file 2) = (\<lambda>_. 0) \<and>
   i_size (inode_table sb_one_file 2) = 0 \<and> i_blocks (inode_table sb_one_file 2) = 0 \<and>
   unat (block_count sb_one_file) \<le> DATA_BLOCK_COUNT \<and> block_bitmap sb_one_file 0 \<and>
   user_copy_ok env_ok \<and>
   length (replicate 49152 (0x41 :: u8)) = OSFS_N_DIRECT * BLOCK_SIZE \<and>
   OSFS_N_DIRECT + 2 \<le> zero_bits (block_bitmap sb_one_file) (unat (block_count sb_one_file)) \<and>
   (\<exists>sb1 sb2.
      osfs_write env_ok sb_one_file 2 (replicate 49152 0x41) 0 = (Inr 49152, sb1, 49152) \<and>
      i_block (inode_table sb1 2) OSFS_N_DIRECT = 0 \<and>
      nr_free_blocks sb1 = 7 \<and>
      osfs_write env_ok sb1 2 [0x42] 49152 = (Inr 1, sb2, 49153) \<and>
      i_block (inode_table sb2 2) OSFS_N_DIRECT \<noteq> 0 \<and>
      nr_free_blocks sb2 = 5)"
proof -
  have ib: "i_block (inode_table sb_one_file 2) = (\<lambda>_. 0)"
    by (simp add: sb_one_file_def file_inode_fresh_def)
  have l: "length (replicate 49152 (0x41 :: u8)) = OSFS_N_DIRECT * BLOCK_SIZE"
    by (simp add: BLOCK_SIZE_def OSFS_N_DIRECT_def)
  have sp: "OSFS_N_DIRECT + 2 \<le> zero_bits (block_bitmap sb_one_file) (unat (block_count sb_one_file))"
    by (simp add: sb_one_file_facts(6) OSFS_N_DIRECT_def)
  have f: "nr_free_blocks sb_one_file = 19" by (simp add: sb_one_file_def)
  from indirect_boundary[OF sb_one_file_facts(1,2,3,4,5,7) l sp, of "0x42"]
  obtain sb1 sb2 where
    "osfs_write env_ok sb_one_file 2 (replicate 49152 0x41) 0 = (Inr 49152, sb1, 49152)"
    "i_block (inode_table sb1 2) OSFS_N_DIRECT = 0"
    "nr_free_blocks sb1 = 7"
    "osfs_write env_ok sb1 2 [0x42] 49152 = (Inr 1, sb2, 49153)"
    "i_block (inode_table sb2 2) OSFS_N_DIRECT \<noteq> 0"
    "nr_free_blocks sb2 = 5"
    by (auto simp: f blk_ok_def)
  then show ?thesis using ib sb_one_file_facts(2,3,4,5,7) l sp by blast
qed

end
